theory Spec2Isabelle
  imports Complex_Main "HOL-Library.Word" "HOL-Library.Signed_Division" "HOL-Library.Sublist"
begin

section \<open>Machine integers and the library functions the publisher calls\<close>

text \<open>
  Go's \<^verbatim>\<open>int64\<close> (and \<^verbatim>\<open>time.Duration\<close>, an \<^verbatim>\<open>int64\<close> count of nanoseconds) is a
  64-bit word: \<open>+\<close>, \<open>-\<close> and \<open>*\<close> wrap, \<open>sint\<close> reads the signed value, \<open><s\<close> is the
  signed comparison. Go's \<^verbatim>\<open>int\<close> is taken to be 64 bits wide as well.
\<close>

type_synonym int64 = "64 word"
type_synonym Duration = "64 word"
type_synonym bytes = "8 word list"

definition Second :: Duration where
  "Second = 1000000000"

definition minDuration :: Duration where
  "minDuration = word_of_int (- (2 ^ 63))"

definition maxDuration :: Duration where
  "maxDuration = word_of_int (2 ^ 63 - 1)"

text \<open>
  Go's \<^verbatim>\<open>/\<close> and \<^verbatim>\<open>%\<close> on \<^verbatim>\<open>int64\<close> truncate towards zero and wrap on
  \<^verbatim>\<open>MinInt64 / -1\<close>. A zero divisor panics in Go; the callers below test for it first.
\<close>

definition div64 :: "int64 \<Rightarrow> int64 \<Rightarrow> int64" where
  "div64 a b = word_of_int (sint a sdiv sint b)"

definition rem64 :: "int64 \<Rightarrow> int64 \<Rightarrow> int64" where
  "rem64 a b = word_of_int (sint a smod sint b)"

text \<open>
  \<^verbatim>\<open>time.Duration.Round\<close> of the Go standard library, with its helper \<^verbatim>\<open>lessThanHalf\<close>
  (which compares as \<^verbatim>\<open>uint64\<close>): the nearest multiple of \<open>m\<close>, halves away from zero,
  saturating at the ends of the range.
\<close>

definition lessThanHalf :: "Duration \<Rightarrow> Duration \<Rightarrow> bool" where
  "lessThanHalf x y = (x + x < y)"

definition Round :: "Duration \<Rightarrow> Duration \<Rightarrow> Duration" where
  "Round d m =
     (if m \<le>s 0 then d
      else let r = rem64 d m in
        if d <s 0 then
          (let r' = - r in
           if lessThanHalf r' m then d + r'
           else let d1 = d - m + r' in
             if d1 <s d then d1 else minDuration)
        else if lessThanHalf r m then d - r
        else let d1 = d + m - r in
          if d <s d1 then d1 else maxDuration)"

text \<open>
  \<^verbatim>\<open>path.Base\<close> of the Go standard library: the last element of a slash-separated path,
  after trailing slashes are removed; \<open>''.''\<close> for the empty path and \<open>''/''\<close> for a path
  of slashes only.
\<close>

definition Base :: "string \<Rightarrow> string" where
  "Base p =
     (if p = [] then ''.''
      else let p1 = rev (dropWhile (\<lambda>c. c = CHR ''/'') (rev p));
               p2 = rev (takeWhile (\<lambda>c. c \<noteq> CHR ''/'') (rev p1))
           in if p2 = [] then ''/'' else p2)"

text \<open>The \<^verbatim>\<open>%d\<close> verb of \<^verbatim>\<open>fmt.Fprintf\<close>: a signed decimal numeral.\<close>

fun dec_nat :: "nat \<Rightarrow> string" where
  "dec_nat n =
     (if n < 10 then [''0123456789'' ! n]
      else dec_nat (n div 10) @ [''0123456789'' ! (n mod 10)])"

definition fmt_d :: "int \<Rightarrow> string" where
  "fmt_d i = (if i < 0 then CHR ''-'' # dec_nat (nat (- i)) else dec_nat (nat i))"

section \<open>Segments and the store\<close>

text \<open>
  The publisher holds its segments by pointer, and the same segment is reachable from
  \<^verbatim>\<open>segments\<close>, from \<^verbatim>\<open>current\<close> and from the published snapshot. The store is the
  list of all segments ever allocated; a reference is an index into it, and allocation
  appends.
\<close>

type_synonym ref = nat

datatype lifecycle = Created | Active | Finalized | Released

text \<open>
  Modelled from the spec: the \<^verbatim>\<open>segment\<close> type and its methods are not part of
  \<^verbatim>\<open>hls.go\<close>. The fields \<open>name\<close>, \<open>dur\<close> and \<open>dcn\<close> are the ones \<^verbatim>\<open>hls.go\<close> reads;
  \<open>start\<close>, \<open>phase\<close> and \<open>payload\<close> follow the data model of the specification
  (identity and resource name; start time; duration, provisional at activation and fixed at
  finalization; discontinuity flag; lifecycle state; stored bytes).
\<close>

record segment =
  name :: string
  start :: Duration
  dur :: Duration
  dcn :: bool
  phase :: lifecycle
  payload :: bytes

datatype error = MuxError | StorageError | WriteError | DivideByZero

datatype sink = Tsb | MuxBuf

datatype Muxer = Muxer sink

type_synonym CodecData = nat

record Packet =
  IsKeyFrame :: bool
  Time :: Duration
  Data :: bytes

text \<open>
  What the publisher cannot decide by itself is read from the environment of a call:
  the clock, the outcome of allocating storage for a segment, the transport-stream
  multiplexer (the bytes it writes to its sink and whether it succeeds), the outcome of a
  write to a segment, and two things the specification leaves open: how a segment's name is
  derived from its number, and the text of its playlist entry.
\<close>

record env =
  now_UnixNano :: int64
  create_ok :: "int64 \<Rightarrow> bool"
  seg_name :: "int64 \<Rightarrow> string"
  mux_WriteHeader :: "CodecData list \<Rightarrow> bytes \<times> bool"
  mux_WritePacket :: "Packet \<Rightarrow> bytes \<times> bool"
  write_ok :: "segment \<Rightarrow> bytes \<Rightarrow> bool"
  Format :: "bool \<Rightarrow> segment \<Rightarrow> string"

text \<open>
  Modelled from the spec: the package-level constructor \<^verbatim>\<open>newSegment(segNum, header,
  workDir)\<close>. A segment is created holding only the muxed header bytes, with no start time
  or duration yet; its name is derived from its number; allocation of its storage may fail.
\<close>

definition new_segment :: "env \<Rightarrow> int64 \<Rightarrow> bytes \<Rightarrow> string \<Rightarrow> error + segment" where
  "new_segment e n hdr workDir =
     (if create_ok e n
      then Inr \<lparr>name = seg_name e n, start = 0, dur = 0, dcn = False,
                phase = Created, payload = hdr\<rparr>
      else Inl StorageError)"

text \<open>
  Modelled from the spec: \<^verbatim>\<open>segment.activate\<close> assigns the start time, the provisional
  target duration and the discontinuity flag; the segment becomes Active.
\<close>

definition activate :: "Duration \<Rightarrow> Duration \<Rightarrow> bool \<Rightarrow> segment \<Rightarrow> segment" where
  "activate st initialDur d s =
     s\<lparr>start := st, dur := initialDur, segment.dcn := d, phase := Active\<rparr>"

text \<open>
  Modelled from the spec: \<^verbatim>\<open>segment.Finalize\<close> fixes the duration to the next segment's
  start time minus this segment's start time.
\<close>

definition Finalize :: "Duration \<Rightarrow> segment \<Rightarrow> segment" where
  "Finalize nextSegment s = s\<lparr>dur := nextSegment - start s, phase := Finalized\<rparr>"

text \<open>Modelled from the spec: \<^verbatim>\<open>segment.Release\<close> frees the payload storage.\<close>

definition Release :: "segment \<Rightarrow> segment" where
  "Release s = s\<lparr>phase := Released, payload := []\<rparr>"

text \<open>
  Modelled from the spec: \<^verbatim>\<open>segment.Write\<close> appends the bytes to the payload; when the
  storage fails the segment does not receive them.
\<close>

definition Write :: "env \<Rightarrow> bytes \<Rightarrow> segment \<Rightarrow> error + segment" where
  "Write e b s =
     (if write_ok e s b then Inr (s\<lparr>payload := payload s @ b\<rparr>) else Inl WriteError)"

section \<open>The publisher\<close>

record hlsState =
  playlist :: string
  segments :: "ref list"

record Publisher =
  InitialDuration :: Duration
  BufferLength :: Duration
  WorkDir :: string
  Prefetch :: bool
  Precreate :: int64
  segments :: "ref list"
  presegs :: "ref list"
  segNum :: int64
  seq :: int64
  dcn :: bool
  dcnseq :: int64
  state :: "hlsState option"
  current :: "ref option"
  muxBuf :: bytes
  mux :: "Muxer option"
  muxHdr :: bytes

record world =
  heap :: "segment list"
  pub :: Publisher

text \<open>A publisher as the caller constructs it: the configuration set, every other field zero.\<close>

definition new_Publisher :: "Duration \<Rightarrow> Duration \<Rightarrow> string \<Rightarrow> bool \<Rightarrow> int64 \<Rightarrow> world" where
  "new_Publisher initialDuration bufferLength workDir prefetch precreate =
     \<lparr>heap = [],
      pub = \<lparr>InitialDuration = initialDuration, BufferLength = bufferLength,
              WorkDir = workDir, Prefetch = prefetch, Precreate = precreate,
              segments = [], presegs = [], segNum = 0, seq = 0, dcn = False, dcnseq = 0,
              state = None, current = None, muxBuf = [], mux = None, muxHdr = []\<rparr>\<rparr>"

definition upd_seg :: "ref \<Rightarrow> (segment \<Rightarrow> segment) \<Rightarrow> world \<Rightarrow> world" where
  "upd_seg r f w = w\<lparr>heap := (heap w)[r := f (heap w ! r)]\<rparr>"

definition set_writer :: "Muxer option \<Rightarrow> sink \<Rightarrow> Muxer option" where
  "set_writer m s = (case m of None \<Rightarrow> Some (Muxer s) | Some (Muxer _) \<Rightarrow> Some (Muxer s))"

subsection \<open>WriteHeader, Discontinuity\<close>

definition WriteHeader :: "env \<Rightarrow> CodecData list \<Rightarrow> world \<Rightarrow> error option \<times> world" where
  "WriteHeader e streams w =
     (let p1 = (pub w)\<lparr>mux := set_writer (mux (pub w)) Tsb\<rparr>;
          (tsb, ok) = mux_WriteHeader e streams
      in if \<not> ok then (Some MuxError, w\<lparr>pub := p1\<rparr>)
         else (None, w\<lparr>pub := p1\<lparr>muxHdr := tsb\<rparr>\<rparr>))"

definition Discontinuity :: "world \<Rightarrow> world" where
  "Discontinuity w = w\<lparr>pub := (pub w)\<lparr>dcn := True\<rparr>\<rparr>"

subsection \<open>targetDuration\<close>

definition targetDuration :: "world \<Rightarrow> Duration" where
  "targetDuration w =
     (let maxTime0 = foldl (\<lambda>maxTime chunk.
                         if maxTime <s dur (heap w ! chunk) then dur (heap w ! chunk)
                         else maxTime) 0 (segments (pub w));
          maxTime1 = Round maxTime0 Second;
          maxTime2 = (if maxTime1 = 0 then InitialDuration (pub w) else maxTime1)
      in if maxTime2 = 0 then 5 * Second else maxTime2)"

subsection \<open>trimSegments\<close>

text \<open>The local \<^verbatim>\<open>keepSegments\<close> of \<^verbatim>\<open>trimSegments\<close>, from the buffer length and the segment length.\<close>

definition keepSegments :: "Duration \<Rightarrow> Duration \<Rightarrow> int" where
  "keepSegments bufferLength segmentLen =
     (let goalLen = (if bufferLength = 0 then 60 * Second else bufferLength);
          k = div64 (goalLen + segmentLen - 1) segmentLen + 1
      in if k <s 10 then 10 else sint k)"

text \<open>The body of the eviction loop, for one segment.\<close>

definition evict1 :: "ref \<Rightarrow> world \<Rightarrow> world" where
  "evict1 seg w =
     (let p1 = (pub w)\<lparr>seq := seq (pub w) + 1\<rparr>;
          p2 = (if segment.dcn (heap w ! seg) then p1\<lparr>dcnseq := dcnseq p1 + 1\<rparr> else p1)
      in upd_seg seg Release (w\<lparr>pub := p2\<rparr>))"

fun evict :: "ref list \<Rightarrow> world \<Rightarrow> world" where
  "evict [] w = w"
| "evict (seg # segs) w = evict segs (evict1 seg w)"

definition trimSegments :: "Duration \<Rightarrow> world \<Rightarrow> error + world" where
  "trimSegments segmentLen w =
     (if segmentLen = 0 then Inl DivideByZero
      else let n = int (length (segments (pub w)))
                     - keepSegments (BufferLength (pub w)) segmentLen
           in if n \<le> 0 then Inr w
              else let w1 = evict (take (nat n) (segments (pub w))) w
                   in Inr (w1\<lparr>pub := (pub w1)\<lparr>segments := drop (nat n) (segments (pub w1))\<rparr>\<rparr>))"

subsection \<open>newSegment\<close>

text \<open>Lines 99 to 101: the segment that was receiving packets is finalized.\<close>

definition finalize_current :: "Duration \<Rightarrow> world \<Rightarrow> world" where
  "finalize_current st w =
     (case current (pub w) of None \<Rightarrow> w | Some c \<Rightarrow> upd_seg c (Finalize st) w)"

text \<open>Lines 103 to 105: the segment counter is seeded from the clock.\<close>

definition seed_segNum :: "env \<Rightarrow> world \<Rightarrow> world" where
  "seed_segNum e w =
     (if segNum (pub w) = 0 then w\<lparr>pub := (pub w)\<lparr>segNum := now_UnixNano e\<rparr>\<rparr> else w)"

text \<open>
  Lines 106 to 117: the next segment is the oldest precreated one, or a new one. When the
  constructor fails, \<^verbatim>\<open>p.current\<close> has been assigned the constructor's first result
  (taken to be nil, as Go constructors return) and the error is returned.
\<close>

definition take_segment :: "env \<Rightarrow> world \<Rightarrow> error + world" where
  "take_segment e w =
     (case presegs (pub w) of
        c # rest \<Rightarrow> Inr (w\<lparr>pub := (pub w)\<lparr>current := Some c, presegs := rest\<rparr>\<rparr>)
      | [] \<Rightarrow>
         (case new_segment e (segNum (pub w)) (muxHdr (pub w)) (WorkDir (pub w)) of
            Inl err \<Rightarrow> Inl err
          | Inr s \<Rightarrow> Inr \<lparr>heap = heap w @ [s],
                          pub = (pub w)\<lparr>current := Some (length (heap w))\<rparr>\<rparr>))"

text \<open>Lines 118 to 122: the segment is activated and appended to the window.\<close>

definition activate_current :: "Duration \<Rightarrow> Duration \<Rightarrow> world \<Rightarrow> world" where
  "activate_current st initialDur w =
     (case current (pub w) of
        None \<Rightarrow> w
      | Some c \<Rightarrow>
         (let w1 = upd_seg c (activate st initialDur (dcn (pub w))) w
          in w1\<lparr>pub := (pub w1)\<lparr>dcn := False, segNum := segNum (pub w1) + 1,
                                  segments := segments (pub w1) @ [c]\<rparr>\<rparr>))"

text \<open>
  Lines 125 to 138: the playlist is written and the snapshot is stored. The seconds of the
  target duration are printed as the truncated quotient by \<open>10^9\<close> (Go converts through a
  \<^verbatim>\<open>float64\<close>, which gives the same integer for every duration below \<open>2^24\<close> seconds).
\<close>

definition build_playlist :: "env \<Rightarrow> Duration \<Rightarrow> world \<Rightarrow> string" where
  "build_playlist e initialDur w =
     ''#EXTM3U'' @ [CHR 0x0A] @ ''#EXT-X-VERSION:3'' @ [CHR 0x0A]
     @ ''#EXT-X-TARGETDURATION:'' @ fmt_d (sint (div64 initialDur Second)) @ [CHR 0x0A]
     @ ''#EXT-X-MEDIA-SEQUENCE:'' @ fmt_d (sint (seq (pub w))) @ [CHR 0x0A]
     @ (if dcnseq (pub w) \<noteq> 0
        then ''#EXT-X-DISCONTINUITY-SEQUENCE:'' @ fmt_d (sint (dcnseq (pub w))) @ [CHR 0x0A]
        else [])
     @ concat (map (\<lambda>chunk. Format e (Prefetch (pub w)) (heap w ! chunk))
                   (segments (pub w) @ presegs (pub w)))"

definition publish :: "env \<Rightarrow> Duration \<Rightarrow> world \<Rightarrow> world" where
  "publish e initialDur w =
     w\<lparr>pub := (pub w)\<lparr>state := Some \<lparr>playlist = build_playlist e initialDur w,
                                        hlsState.segments = segments (pub w) @ presegs (pub w)\<rparr>\<rparr>\<rparr>"

text \<open>Lines 140 to 147: the precreate queue is refilled.\<close>

function precreate :: "env \<Rightarrow> world \<Rightarrow> error option \<times> world" where
  "precreate e w =
     (if int (length (presegs (pub w))) < sint (Precreate (pub w)) then
        (case new_segment e (segNum (pub w)) (muxHdr (pub w)) (WorkDir (pub w)) of
           Inl err \<Rightarrow> (Some err, w)
         | Inr s \<Rightarrow>
            precreate e \<lparr>heap = heap w @ [s],
                         pub = (pub w)\<lparr>presegs := presegs (pub w) @ [length (heap w)],
                                       segNum := segNum (pub w) + 1\<rparr>\<rparr>)
      else (None, w))"
  by pat_completeness auto
termination
  by (relation "measure (\<lambda>(e, w). nat (sint (Precreate (pub w)) - int (length (presegs (pub w)))))")
     auto

declare precreate.simps [simp del]

definition newSegment :: "env \<Rightarrow> Duration \<Rightarrow> world \<Rightarrow> error option \<times> world" where
  "newSegment e st w =
     (let w1 = finalize_current st w;
          initialDur = targetDuration w1;
          w2 = seed_segNum e w1
      in case take_segment e w2 of
           Inl err \<Rightarrow> (Some err, w2\<lparr>pub := (pub w2)\<lparr>current := None\<rparr>\<rparr>)
         | Inr w3 \<Rightarrow>
            (case trimSegments initialDur (activate_current st initialDur w3) of
               Inl err \<Rightarrow> (Some err, activate_current st initialDur w3)
             | Inr w4 \<Rightarrow> precreate e (publish e initialDur w4)))"

subsection \<open>WritePacket\<close>

text \<open>Lines 75 to 89: the packet is muxed and written to the segment receiving packets.\<close>

definition write_current :: "env \<Rightarrow> Packet \<Rightarrow> world \<Rightarrow> error option \<times> world" where
  "write_current e pkt w =
     (case current (pub w) of
        None \<Rightarrow> (None, w)
      | Some c \<Rightarrow>
         (let (out, ok) = mux_WritePacket e pkt;
              w1 = w\<lparr>pub := (pub w)\<lparr>muxBuf := out,
                                    mux := set_writer (mux (pub w)) MuxBuf\<rparr>\<rparr>
          in if \<not> ok then (Some MuxError, w1)
             else (case Write e out (heap w1 ! c) of
                     Inl err \<Rightarrow> (Some err, w1)
                   | Inr s \<Rightarrow> (None, w1\<lparr>heap := (heap w1)[c := s]\<rparr>))))"

definition WritePacket :: "env \<Rightarrow> Packet \<Rightarrow> world \<Rightarrow> error option \<times> world" where
  "WritePacket e pkt w =
     (if IsKeyFrame pkt then
        (case newSegment e (Time pkt) w of
           (Some err, w1) \<Rightarrow> (Some err, w1)
         | (None, w1) \<Rightarrow> write_current e pkt w1)
      else write_current e pkt w)"

subsection \<open>ServeHTTP, Close\<close>

text \<open>
  What the handler does with a request: a not-found response, the playlist with the HLS
  content type, or the request handed to the segment of that name.
\<close>

datatype response = NotFound | PlaylistOK string | SegmentServe ref

definition ServeHTTP :: "world \<Rightarrow> string \<Rightarrow> response" where
  "ServeHTTP w urlPath =
     (case state (pub w) of
        None \<Rightarrow> NotFound
      | Some st \<Rightarrow>
         (let bn = Base urlPath
          in if bn = ''index.m3u8'' then PlaylistOK (playlist st)
             else (case find (\<lambda>chunk. name (heap w ! chunk) = bn) (hlsState.segments st) of
                     Some chunk \<Rightarrow> SegmentServe chunk
                   | None \<Rightarrow> NotFound)))"

fun release_all :: "ref list \<Rightarrow> segment list \<Rightarrow> segment list" where
  "release_all [] h = h"
| "release_all (seg # segs) h = release_all segs (h[seg := Release (h ! seg)])"

definition Close :: "world \<Rightarrow> world" where
  "Close w =
     (let h1 = release_all (segments (pub w)) (heap w);
          h2 = release_all (presegs (pub w)) h1
      in \<lparr>heap = h2,
          pub = (pub w)\<lparr>state := Some \<lparr>playlist = [], hlsState.segments = []\<rparr>,
                        current := None, segments := [], presegs := []\<rparr>\<rparr>)"

section \<open>Runs of the publisher\<close>

text \<open>
  The single writer drives the publisher through a sequence of calls; each call that
  touches a collaborator comes with the environment it meets.
\<close>

datatype call =
    WriteHeaderCall env "CodecData list"
  | WritePacketCall env Packet
  | DiscontinuityCall
  | CloseCall

fun step :: "call \<Rightarrow> world \<Rightarrow> world" where
  "step (WriteHeaderCall e streams) w = snd (WriteHeader e streams w)"
| "step (WritePacketCall e pkt) w = snd (WritePacket e pkt w)"
| "step DiscontinuityCall w = Discontinuity w"
| "step CloseCall w = Close w"

definition run :: "call list \<Rightarrow> world \<Rightarrow> world" where
  "run cs w = fold step cs w"

text \<open>Every pointer the publisher holds is a segment of the store.\<close>

definition valid_refs :: "world \<Rightarrow> bool" where
  "valid_refs w =
     (list_all (\<lambda>r. r < length (heap w)) (segments (pub w))
      \<and> list_all (\<lambda>r. r < length (heap w)) (presegs (pub w))
      \<and> (case current (pub w) of None \<Rightarrow> True | Some c \<Rightarrow> c < length (heap w)))"

text \<open>
  A keyframe arriving in \<open>w\<close> activates a segment: a precreated one is queued, or the
  constructor succeeds for the segment number in use (seeded from the clock when zero).
\<close>

definition activates :: "env \<Rightarrow> world \<Rightarrow> bool" where
  "activates e w =
     (presegs (pub w) \<noteq> []
      \<or> create_ok e (if segNum (pub w) = 0 then now_UnixNano e else segNum (pub w)))"

text \<open>The number of segments a trim evicts: the local \<^verbatim>\<open>n\<close> of \<^verbatim>\<open>trimSegments\<close>, or zero.\<close>

definition trim_count :: "Duration \<Rightarrow> world \<Rightarrow> nat" where
  "trim_count segmentLen w =
     nat (int (length (segments (pub w))) - keepSegments (BufferLength (pub w)) segmentLen)"

section \<open>The segments a run evicts\<close>

text \<open>
  The segments a trim evicts, as the store holds them when the trim starts: the slice
  \<^verbatim>\<open>p.segments[:n]\<close> that the eviction loop ranges over.
\<close>

definition evicted_by_trim :: "Duration \<Rightarrow> world \<Rightarrow> segment list" where
  "evicted_by_trim segmentLen w =
     map (\<lambda>seg. heap w ! seg) (take (trim_count segmentLen w) (segments (pub w)))"

text \<open>
  The segments evicted by the trim of one \<open>newSegment\<close> call; none when the call returns
  before it trims.
\<close>

definition newSegment_evicted :: "env \<Rightarrow> Duration \<Rightarrow> world \<Rightarrow> segment list" where
  "newSegment_evicted e st w =
     (let w1 = finalize_current st w;
          initialDur = targetDuration w1
      in case take_segment e (seed_segNum e w1) of
           Inl err \<Rightarrow> []
         | Inr w3 \<Rightarrow> evicted_by_trim initialDur (activate_current st initialDur w3))"

fun evicted :: "call \<Rightarrow> world \<Rightarrow> segment list" where
  "evicted (WritePacketCall e pkt) w =
     (if IsKeyFrame pkt then newSegment_evicted e (Time pkt) w else [])"
| "evicted (WriteHeaderCall e streams) w = []"
| "evicted DiscontinuityCall w = []"
| "evicted CloseCall w = []"

fun evictions :: "call list \<Rightarrow> world \<Rightarrow> segment list" where
  "evictions [] w = []"
| "evictions (c # cs) w = evicted c w @ evictions cs (step c w)"

text \<open>
  The segments created so far that are neither in the window nor in the precreate queue.
\<close>

definition unwindowed :: "world \<Rightarrow> int" where
  "unwindowed w = int (length (heap w)) - int (length (segments (pub w)))
                    - int (length (presegs (pub w)))"

text \<open>
  A non-negative number of nanoseconds rounded to the nearest whole second, half a second
  rounding up, and never beyond the largest \<^verbatim>\<open>Duration\<close>.
\<close>

definition nearest_second :: "int \<Rightarrow> int" where
  "nearest_second d = min (1000000000 * ((d + 500000000) div 1000000000)) (2 ^ 63 - 1)"

section \<open>The specification's reading of the claims that fail on the code\<close>


section \<open>Concrete environments and publishers\<close>

definition env_ok :: env where
  "env_ok = \<lparr>now_UnixNano = 1000, create_ok = (\<lambda>n. True),
             seg_name = (\<lambda>n. fmt_d (sint n) @ ''.ts''),
             mux_WriteHeader = (\<lambda>streams. ([0x47], True)),
             mux_WritePacket = (\<lambda>pkt. (Data pkt, True)),
             write_ok = (\<lambda>s b. True),
             Format = (\<lambda>prefetch s. name s @ [CHR 0x0A])\<rparr>"

text \<open>The same environment with a muxer that writes another header.\<close>

definition env_hdr2 :: env where
  "env_hdr2 = env_ok\<lparr>mux_WriteHeader := (\<lambda>streams. ([0x47, 0x40], True))\<rparr>"



definition key_packet :: "Duration \<Rightarrow> Packet" where
  "key_packet t = \<lparr>IsKeyFrame = True, Time = t, Data = [1, 2, 3]\<rparr>"

definition delta_packet :: "Duration \<Rightarrow> Packet" where
  "delta_packet t = \<lparr>IsKeyFrame = False, Time = t, Data = [4, 5]\<rparr>"

text \<open>A publisher with a 5 s initial duration, a 10 s buffer and no precreation.\<close>

definition pub0 :: world where
  "pub0 = new_Publisher (5 * Second) (10 * Second) ''/tmp'' False 0"

text \<open>
  A live stream: the header, a keyframe at 0 s, a further packet, a keyframe at 6.4 s.
\<close>

definition live2 :: world where
  "live2 = run [WriteHeaderCall env_ok [1], WritePacketCall env_ok (key_packet 0),
                WritePacketCall env_ok (delta_packet 3000000000),
                WritePacketCall env_ok (key_packet 6400000000)] pub0"

text \<open>The first keyframe of a publisher that keeps one segment precreated.\<close>

definition pre1 :: world where
  "pre1 = run [WritePacketCall env_ok (key_packet 0)]
              (new_Publisher (5 * Second) (10 * Second) ''/tmp'' True 1)"

text \<open>Ten keyframes, six seconds apart, the first of them after a discontinuity.\<close>

definition live10 :: world where
  "live10 = run (DiscontinuityCall #
                 map (\<lambda>k. WritePacketCall env_ok (key_packet (of_nat k * (6 * Second)))) [0..<10])
                pub0"

section \<open>Properties of the stages\<close>

lemma finalize_current_pub [simp]: "pub (finalize_current st w) = pub w"
  by (simp add: finalize_current_def upd_seg_def split: option.splits)

lemma finalize_current_len [simp]: "length (heap (finalize_current st w)) = length (heap w)"
  by (simp add: finalize_current_def upd_seg_def split: option.splits)

lemma seed_segNum_heap [simp]: "heap (seed_segNum e w) = heap w"
  by (simp add: seed_segNum_def)

lemma seed_segNum_pub:
  "pub (seed_segNum e w) =
     (pub w)\<lparr>segNum := (if segNum (pub w) = 0 then now_UnixNano e else segNum (pub w))\<rparr>"
  by (simp add: seed_segNum_def)

lemma evict_len [simp]: "length (heap (evict rs w)) = length (heap w)"
  by (induction rs arbitrary: w) (simp_all add: evict1_def upd_seg_def Let_def)

lemma Release_dcn [simp]: "segment.dcn (Release s) = segment.dcn s"
  by (simp add: Release_def)

lemma evict1_heap_dcn [simp]: "segment.dcn (heap (evict1 r w) ! i) = segment.dcn (heap w ! i)"
  by (cases "i = r"; cases "r < length (heap w)")
     (simp_all add: evict1_def upd_seg_def Let_def list_update_beyond)

lemma evict_heap_dcn [simp]: "segment.dcn (heap (evict rs w) ! i) = segment.dcn (heap w ! i)"
  by (induction rs arbitrary: w) simp_all

lemma evict1_pub:
  "pub (evict1 r w) =
     (pub w)\<lparr>seq := seq (pub w) + 1,
             dcnseq := dcnseq (pub w) + (if segment.dcn (heap w ! r) then 1 else 0)\<rparr>"
  by (simp add: evict1_def upd_seg_def Let_def)

lemma evict_pub:
  "pub (evict rs w) =
     (pub w)\<lparr>seq := seq (pub w) + of_nat (length rs),
             dcnseq := dcnseq (pub w)
                + of_nat (length (filter (\<lambda>r. segment.dcn (heap w ! r)) rs))\<rparr>"
  by (induction rs arbitrary: w) (simp_all add: evict1_pub)

lemma evict_heap_other: "i \<notin> set rs \<Longrightarrow> heap (evict rs w) ! i = heap w ! i"
  by (induction rs arbitrary: w) (simp_all add: evict1_def upd_seg_def Let_def)

lemma keepSegments_ge_10: "10 \<le> keepSegments b d"
  by (simp add: keepSegments_def Let_def word_sless_alt)

lemma trimSegments_Inr:
  assumes "d \<noteq> 0"
  shows "trimSegments d w =
           Inr \<lparr>heap = heap (evict (take (trim_count d w) (segments (pub w))) w),
                pub = (pub w)\<lparr>seq := seq (pub w) + of_nat (trim_count d w),
                   dcnseq := dcnseq (pub w) + of_nat (length (filter (\<lambda>r. segment.dcn (heap w ! r))
                       (take (trim_count d w) (segments (pub w))))),
                   segments := drop (trim_count d w) (segments (pub w))\<rparr>\<rparr>"
proof (cases "int (length (segments (pub w))) - keepSegments (BufferLength (pub w)) d \<le> 0")
  case True
  then have "trim_count d w = 0" by (simp add: trim_count_def)
  with True assms show ?thesis by (simp add: trimSegments_def Let_def)
next
  case False
  then have n: "trim_count d w \<le> length (segments (pub w))" "0 < trim_count d w"
    using keepSegments_ge_10[of "BufferLength (pub w)" d] by (simp_all add: trim_count_def)
  show ?thesis using False assms n
    by (simp add: trimSegments_def Let_def evict_pub trim_count_def[symmetric] min_absorb2)
qed

lemma targetDuration_nonzero: "targetDuration w \<noteq> 0"
  by (simp add: targetDuration_def Let_def Second_def)

lemma take_segment_activates:
  "(\<exists>w'. take_segment e (seed_segNum e w) = Inr w') \<longleftrightarrow> activates e w"
  by (auto simp: take_segment_def activates_def new_segment_def seed_segNum_def
           split: list.splits sum.splits if_splits)

lemma take_segment_Inl:
  "take_segment e w = Inl err \<Longrightarrow> err = StorageError \<and> presegs (pub w) = []"
  by (auto simp: take_segment_def new_segment_def split: list.splits sum.splits if_splits)

lemma take_segment_Inr:
  assumes "take_segment e w = Inr w'"
  shows "\<exists>c. pub w' = (pub w)\<lparr>current := Some c, presegs := tl (presegs (pub w))\<rparr>
           \<and> (if presegs (pub w) = []
               then c = length (heap w) \<and> create_ok e (segNum (pub w)) \<and>
                    heap w' = heap w @ [\<lparr>name = seg_name e (segNum (pub w)), start = 0, dur = 0,
                       dcn = False, phase = Created, payload = muxHdr (pub w)\<rparr>]
               else c = hd (presegs (pub w)) \<and> heap w' = heap w)"
  using assms
  by (auto simp: take_segment_def new_segment_def split: list.splits sum.splits if_splits)

lemma activate_current_pub:
  "current (pub w) = Some c \<Longrightarrow>
   pub (activate_current st d w) =
     (pub w)\<lparr>dcn := False, segNum := segNum (pub w) + 1, segments := segments (pub w) @ [c]\<rparr>"
  by (simp add: activate_current_def upd_seg_def Let_def)

lemma activate_current_heap:
  "current (pub w) = Some c \<Longrightarrow>
   heap (activate_current st d w) = (heap w)[c := activate st d (dcn (pub w)) (heap w ! c)]"
  by (simp add: activate_current_def upd_seg_def Let_def)

lemma publish_heap [simp]: "heap (publish e d w) = heap w"
  by (simp add: publish_def)

lemma publish_pub:
  "pub (publish e d w) = (pub w)\<lparr>state := Some \<lparr>playlist = build_playlist e d w,
       hlsState.segments = segments (pub w) @ presegs (pub w)\<rparr>\<rparr>"
  by (simp add: publish_def)

lemma precreate_shape:
  "\<exists>ss. heap (snd (precreate e w)) = heap w @ ss
      \<and> pub (snd (precreate e w)) =
          (pub w)\<lparr>presegs := presegs (pub w) @ [length (heap w) ..< length (heap w) + length ss],
                  segNum := segNum (pub w) + of_nat (length ss)\<rparr>
      \<and> (\<forall>s \<in> set ss. payload s = muxHdr (pub w) \<and> phase s = Created)"
proof (induction e w rule: precreate.induct)
  case (1 e w)
  show ?case
  proof (cases "int (length (presegs (pub w))) < sint (Precreate (pub w))")
    case False
    then show ?thesis by (simp add: precreate.simps[of e w])
  next
    case True
    show ?thesis
    proof (cases "new_segment e (segNum (pub w)) (muxHdr (pub w)) (WorkDir (pub w))")
      case (Inl err)
      with True show ?thesis by (simp add: precreate.simps[of e w])
    next
      case (Inr s)
      let ?w1 = "\<lparr>heap = heap w @ [s],
                   pub = (pub w)\<lparr>presegs := presegs (pub w) @ [length (heap w)],
                                 segNum := segNum (pub w) + 1\<rparr>\<rparr>"
      from "1.IH"[OF True Inr] obtain ss where
        h: "heap (snd (precreate e ?w1)) = heap ?w1 @ ss"
        and p: "pub (snd (precreate e ?w1)) =
          (pub ?w1)\<lparr>presegs := presegs (pub ?w1) @ [length (heap ?w1) ..< length (heap ?w1) + length ss],
                  segNum := segNum (pub ?w1) + of_nat (length ss)\<rparr>"
        and c: "\<forall>s \<in> set ss. payload s = muxHdr (pub ?w1) \<and> phase s = Created"
        by blast
      have eq: "precreate e w = precreate e ?w1"
        using True Inr by (simp add: precreate.simps[of e w])
      have s: "payload s = muxHdr (pub w) \<and> phase s = Created"
        using Inr by (auto simp: new_segment_def split: if_splits)
      have up: "length (heap w) # [Suc (length (heap w))..<Suc (length (heap w) + length ss)]
                 = [length (heap w)..<Suc (length (heap w) + length ss)]"
        by (rule upt_conv_Cons[symmetric]) simp
      show ?thesis
        apply (rule exI[of _ "s # ss"])
        using h p c s by (simp add: eq up del: upt_Suc)
    qed
  qed
qed

lemma trim_pub:
  "d \<noteq> 0 \<Longrightarrow> pub (projr (trimSegments d w)) =
     (pub w)\<lparr>seq := seq (pub w) + of_nat (trim_count d w),
        dcnseq := dcnseq (pub w) + of_nat (length (filter (\<lambda>r. segment.dcn (heap w ! r))
                       (take (trim_count d w) (segments (pub w))))),
        segments := drop (trim_count d w) (segments (pub w))\<rparr>"
  by (simp add: trimSegments_Inr)

lemma trim_heap:
  "d \<noteq> 0 \<Longrightarrow> heap (projr (trimSegments d w)) =
      heap (evict (take (trim_count d w) (segments (pub w))) w)"
  by (simp add: trimSegments_Inr)

lemma trim_isr: "d \<noteq> 0 \<Longrightarrow> trimSegments d w = Inr (projr (trimSegments d w))"
  by (simp add: trimSegments_Inr)

lemma newSegment_activated:
  assumes "activates e w"
  obtains c w3 where
    "take_segment e (seed_segNum e (finalize_current st w)) = Inr w3"
    "current (pub w3) = Some c"
    "newSegment e st w =
       precreate e (publish e (targetDuration (finalize_current st w))
         (projr (trimSegments (targetDuration (finalize_current st w))
            (activate_current st (targetDuration (finalize_current st w)) w3))))"
proof -
  have "activates e (finalize_current st w)"
    using assms by (auto simp: activates_def split: if_splits)
  then obtain w3 where t: "take_segment e (seed_segNum e (finalize_current st w)) = Inr w3"
    using take_segment_activates by blast
  from take_segment_Inr[OF t] obtain c where c: "current (pub w3) = Some c" by auto
  have "newSegment e st w =
       precreate e (publish e (targetDuration (finalize_current st w))
         (projr (trimSegments (targetDuration (finalize_current st w))
            (activate_current st (targetDuration (finalize_current st w)) w3))))"
  proof -
    obtain w4 where w4: "trimSegments (targetDuration (finalize_current st w))
            (activate_current st (targetDuration (finalize_current st w)) w3) = Inr w4"
      using trim_isr[OF targetDuration_nonzero[of "finalize_current st w"]] by blast
    show ?thesis using t w4 by (simp add: newSegment_def Let_def)
  qed
  with t c that show thesis by blast
qed

lemma newSegment_not_activated:
  assumes "\<not> activates e w"
  shows "newSegment e st w =
     (Some StorageError,
      (seed_segNum e (finalize_current st w))
        \<lparr>pub := (pub (seed_segNum e (finalize_current st w)))\<lparr>current := None\<rparr>\<rparr>)"
proof -
  have "\<not> activates e (finalize_current st w)"
    using assms by (auto simp: activates_def split: if_splits)
  then have "\<not> (\<exists>w'. take_segment e (seed_segNum e (finalize_current st w)) = Inr w')"
    using take_segment_activates by blast
  then obtain err where t: "take_segment e (seed_segNum e (finalize_current st w)) = Inl err"
    by (cases "take_segment e (seed_segNum e (finalize_current st w))") auto
  with take_segment_Inl[OF t] show ?thesis
    by (simp add: newSegment_def Let_def)
qed

lemma Finalize_dcn [simp]: "segment.dcn (Finalize st s) = segment.dcn s"
  by (simp add: Finalize_def)

lemma finalize_current_dcn [simp]:
  "segment.dcn (heap (finalize_current st w) ! i) = segment.dcn (heap w ! i)"
proof (cases "current (pub w)")
  case None then show ?thesis by (simp add: finalize_current_def)
next
  case (Some c)
  then show ?thesis
    by (cases "i = c"; cases "c < length (heap w)")
       (simp_all add: finalize_current_def upd_seg_def list_update_beyond)
qed

lemma precreate_current [simp]: "current (pub (snd (precreate e w))) = current (pub w)"
  using precreate_shape[of e w] by auto

lemma precreate_dcn [simp]: "dcn (pub (snd (precreate e w))) = dcn (pub w)"
  using precreate_shape[of e w] by auto

lemma precreate_segments [simp]: "segments (pub (snd (precreate e w))) = segments (pub w)"
  using precreate_shape[of e w] by auto

lemma precreate_nth: "i < length (heap w) \<Longrightarrow> heap (snd (precreate e w)) ! i = heap w ! i"
  using precreate_shape[of e w] by (auto simp: nth_append)

lemma precreate_len: "length (heap w) \<le> length (heap (snd (precreate e w)))"
  using precreate_shape[of e w] by auto

lemma take_segment_current_valid:
  assumes "take_segment e w = Inr w'" "valid_refs w"
  obtains c where "current (pub w') = Some c" "c < length (heap w')"
    "length (heap w) \<le> length (heap w')" "\<And>i. i < length (heap w) \<Longrightarrow> heap w' ! i = heap w ! i"
    "dcn (pub w') = dcn (pub w)"
proof -
  from take_segment_Inr[OF assms(1)] obtain c where
    p: "pub w' = (pub w)\<lparr>current := Some c, presegs := tl (presegs (pub w))\<rparr>"
    and h: "if presegs (pub w) = []
               then c = length (heap w) \<and> create_ok e (segNum (pub w)) \<and>
                    heap w' = heap w @ [\<lparr>name = seg_name e (segNum (pub w)), start = 0, dur = 0,
                       dcn = False, phase = Created, payload = muxHdr (pub w)\<rparr>]
               else c = hd (presegs (pub w)) \<and> heap w' = heap w"
    by blast
  have "c < length (heap w')"
  proof (cases "presegs (pub w)")
    case Nil with h show ?thesis by simp
  next
    case (Cons a list)
    with h assms(2) show ?thesis by (simp add: valid_refs_def)
  qed
  moreover have "length (heap w) \<le> length (heap w')" using h by (auto split: if_splits)
  moreover have "\<And>i. i < length (heap w) \<Longrightarrow> heap w' ! i = heap w ! i"
    using h by (auto split: if_splits simp: nth_append)
  ultimately show thesis using that p by simp
qed

lemma newSegment_dcn_flags:
  assumes "activates e w" "valid_refs w"
  obtains c where
    "current (pub (snd (newSegment e st w))) = Some c"
    "c < length (heap (snd (newSegment e st w)))"
    "segment.dcn (heap (snd (newSegment e st w)) ! c) = dcn (pub w)"
    "\<not> dcn (pub (snd (newSegment e st w)))"
    "\<And>i. i < length (heap w) \<Longrightarrow> i \<noteq> c \<Longrightarrow>
        segment.dcn (heap (snd (newSegment e st w)) ! i) = segment.dcn (heap w ! i)"
proof -
  let ?w1 = "finalize_current st w"
  let ?d = "targetDuration ?w1"
  from newSegment_activated[OF assms(1), of st] obtain c0 :: ref and w3 where
    t: "take_segment e (seed_segNum e ?w1) = Inr w3"
    and n: "newSegment e st w = precreate e (publish e ?d
         (projr (trimSegments ?d (activate_current st ?d w3))))"
    by metis
  have v: "valid_refs (seed_segNum e ?w1)"
    using assms(2) by (simp add: valid_refs_def seed_segNum_pub split: option.splits)
  from take_segment_current_valid[OF t v] obtain c where
    c: "current (pub w3) = Some c" "c < length (heap w3)"
    and l: "length (heap w) \<le> length (heap w3)"
    and k: "\<And>i. i < length (heap w) \<Longrightarrow> heap w3 ! i = heap ?w1 ! i"
    and f: "dcn (pub w3) = dcn (pub w)"
    by (auto simp: seed_segNum_pub)
  let ?wa = "activate_current st ?d w3"
  let ?w4 = "projr (trimSegments ?d ?wa)"
  let ?wp = "publish e ?d ?w4"
  have d0: "?d \<noteq> 0" by (rule targetDuration_nonzero)
  have la: "length (heap ?wa) = length (heap w3)"
    using c by (simp add: activate_current_heap)
  have l4: "length (heap ?wp) = length (heap w3)"
    using la by (simp add: trim_heap[OF d0])
  have p4: "current (pub ?wp) = Some c" "\<not> dcn (pub ?wp)"
    using c by (simp_all add: publish_pub trim_pub[OF d0] activate_current_pub)
  have fa: "\<And>i. segment.dcn (heap ?wp ! i) = segment.dcn (heap ?wa ! i)"
    by (simp add: trim_heap[OF d0])
  have fc: "segment.dcn (heap ?wa ! c) = dcn (pub w)"
    using c f by (simp add: activate_current_heap activate_def)
  have fo: "\<And>i. i < length (heap w) \<Longrightarrow> i \<noteq> c \<Longrightarrow>
       segment.dcn (heap ?wa ! i) = segment.dcn (heap w ! i)"
    using c k by (simp add: activate_current_heap)
  have 1: "current (pub (snd (newSegment e st w))) = Some c" using p4 by (simp add: n)
  have 2: "c < length (heap (snd (newSegment e st w)))"
    using precreate_len[of ?wp e] l4 c by (simp add: n)
  have 3: "segment.dcn (heap (snd (newSegment e st w)) ! c) = dcn (pub w)"
    using precreate_nth[of c ?wp e] l4 c fa fc by (simp add: n)
  have 4: "\<not> dcn (pub (snd (newSegment e st w)))" using p4 by (simp add: n)
  have 5: "\<And>i. i < length (heap w) \<Longrightarrow> i \<noteq> c \<Longrightarrow>
        segment.dcn (heap (snd (newSegment e st w)) ! i) = segment.dcn (heap w ! i)"
  proof -
    fix i assume i: "i < length (heap w)" "i \<noteq> c"
    then have "i < length (heap ?wp)" using l l4 by simp
    then have "heap (snd (newSegment e st w)) ! i = heap ?wp ! i"
      using precreate_nth[of i ?wp e] by (simp add: n)
    then show "segment.dcn (heap (snd (newSegment e st w)) ! i) = segment.dcn (heap w ! i)"
      using fa fo i by simp
  qed
  from that[OF 1 2 3 4 5] show thesis .
qed

lemma valid_refs_finalize_current: "valid_refs w \<Longrightarrow> valid_refs (finalize_current st w)"
  by (simp add: valid_refs_def split: option.splits)

lemma valid_refs_seed_segNum: "valid_refs w \<Longrightarrow> valid_refs (seed_segNum e w)"
  by (simp add: valid_refs_def seed_segNum_pub split: option.splits)

lemma list_all_mono_len:
  "list_all (\<lambda>r. r < n) rs \<Longrightarrow> n \<le> m \<Longrightarrow> list_all (\<lambda>r. r < (m::nat)) rs"
  by (induction rs) auto

lemma valid_refs_take_segment:
  assumes "take_segment e w = Inr w'" "valid_refs w"
  shows "valid_refs w'"
proof -
  from take_segment_Inr[OF assms(1)] obtain c where
    p: "pub w' = (pub w)\<lparr>current := Some c, presegs := tl (presegs (pub w))\<rparr>"
    and h: "if presegs (pub w) = []
               then c = length (heap w) \<and> create_ok e (segNum (pub w)) \<and>
                    heap w' = heap w @ [\<lparr>name = seg_name e (segNum (pub w)), start = 0, dur = 0,
                       dcn = False, phase = Created, payload = muxHdr (pub w)\<rparr>]
               else c = hd (presegs (pub w)) \<and> heap w' = heap w"
    by blast
  show ?thesis
  proof (cases "presegs (pub w)")
    case Nil
    with h p assms(2) show ?thesis
      by (auto simp: valid_refs_def elim: list_all_mono_len)
  next
    case (Cons a rest)
    with h p assms(2) show ?thesis by (simp add: valid_refs_def)
  qed
qed

lemma valid_refs_activate_current: "valid_refs w \<Longrightarrow> valid_refs (activate_current st d w)"
  by (cases "current (pub w)")
     (simp_all add: valid_refs_def activate_current_def upd_seg_def Let_def)

lemma list_all_drop: "list_all P xs \<Longrightarrow> list_all P (drop n xs)"
  by (simp add: list_all_iff) (meson in_set_dropD)

lemma valid_refs_trim:
  assumes "d \<noteq> 0" "valid_refs w"
  shows "valid_refs (projr (trimSegments d w))"
  using assms(2) by (simp add: valid_refs_def trim_pub[OF assms(1)] trim_heap[OF assms(1)] list_all_drop
        split: option.splits)

lemma valid_refs_publish: "valid_refs w \<Longrightarrow> valid_refs (publish e d w)"
  by (simp add: valid_refs_def publish_pub split: option.splits)

lemma valid_refs_precreate:
  assumes "valid_refs w"
  shows "valid_refs (snd (precreate e w))"
proof -
  from precreate_shape[of e w] obtain ss where
    h: "heap (snd (precreate e w)) = heap w @ ss"
    and p: "pub (snd (precreate e w)) =
          (pub w)\<lparr>presegs := presegs (pub w) @ [length (heap w) ..< length (heap w) + length ss],
                  segNum := segNum (pub w) + of_nat (length ss)\<rparr>"
    by blast
  have "list_all (\<lambda>r. r < length (heap w) + length ss) [length (heap w) ..< length (heap w) + length ss]"
    by (simp add: list_all_iff)
  with assms show ?thesis
    by (auto simp: valid_refs_def h p elim: list_all_mono_len split: option.splits)
qed

lemma write_current_pub:
  "pub (snd (write_current e pkt w)) =
     (case current (pub w) of
        None \<Rightarrow> pub w
      | Some c \<Rightarrow> (pub w)\<lparr>muxBuf := fst (mux_WritePacket e pkt),
                            mux := set_writer (mux (pub w)) MuxBuf\<rparr>)"
  by (cases "current (pub w)"; cases "mux_WritePacket e pkt")
     (simp_all add: write_current_def Let_def split: sum.splits)

lemma write_current_len [simp]:
  "length (heap (snd (write_current e pkt w))) = length (heap w)"
  by (cases "current (pub w)"; cases "mux_WritePacket e pkt")
     (simp_all add: write_current_def Let_def split: sum.splits)

lemma write_current_fields [simp]:
  "segments (pub (snd (write_current e pkt w))) = segments (pub w)"
  "presegs (pub (snd (write_current e pkt w))) = presegs (pub w)"
  "current (pub (snd (write_current e pkt w))) = current (pub w)"
  "dcn (pub (snd (write_current e pkt w))) = dcn (pub w)"
  "seq (pub (snd (write_current e pkt w))) = seq (pub w)"
  "dcnseq (pub (snd (write_current e pkt w))) = dcnseq (pub w)"
  "segNum (pub (snd (write_current e pkt w))) = segNum (pub w)"
  "state (pub (snd (write_current e pkt w))) = state (pub w)"
  "muxHdr (pub (snd (write_current e pkt w))) = muxHdr (pub w)"
  by (simp_all add: write_current_pub split: option.splits)

lemma WritePacket_snd:
  "snd (WritePacket e pkt w) =
     (if IsKeyFrame pkt then
        (if fst (newSegment e (Time pkt) w) = None
         then snd (write_current e pkt (snd (newSegment e (Time pkt) w)))
         else snd (newSegment e (Time pkt) w))
      else snd (write_current e pkt w))"
  by (cases "newSegment e (Time pkt) w") (auto simp: WritePacket_def split: option.splits)

lemma valid_refs_write_current: "valid_refs w \<Longrightarrow> valid_refs (snd (write_current e pkt w))"
  by (simp add: valid_refs_def split: option.splits)

lemma valid_refs_newSegment:
  assumes "valid_refs w"
  shows "valid_refs (snd (newSegment e st w))"
proof (cases "activates e w")
  case True
  let ?w1 = "finalize_current st w"
  let ?d = "targetDuration ?w1"
  from newSegment_activated[OF True, of st] obtain c0 :: ref and w3 where
    t: "take_segment e (seed_segNum e ?w1) = Inr w3"
    and n: "newSegment e st w = precreate e (publish e ?d
         (projr (trimSegments ?d (activate_current st ?d w3))))"
    by metis
  have "valid_refs w3"
    using valid_refs_take_segment[OF t] assms
    by (simp add: valid_refs_seed_segNum valid_refs_finalize_current)
  then show ?thesis
    by (simp add: n valid_refs_precreate valid_refs_publish valid_refs_trim
          targetDuration_nonzero valid_refs_activate_current)
next
  case False
  with assms show ?thesis
    by (simp add: newSegment_not_activated valid_refs_def seed_segNum_pub)
qed

lemma valid_refs_WritePacket:
  assumes "valid_refs w"
  shows "valid_refs (snd (WritePacket e pkt w))"
  using assms
  by (simp add: WritePacket_snd valid_refs_write_current valid_refs_newSegment)

lemma valid_refs_WriteHeader: "valid_refs w \<Longrightarrow> valid_refs (snd (WriteHeader e cs w))"
  by (auto simp: WriteHeader_def Let_def valid_refs_def split: prod.splits option.splits)

lemma valid_refs_Discontinuity: "valid_refs w \<Longrightarrow> valid_refs (Discontinuity w)"
  by (simp add: Discontinuity_def valid_refs_def split: option.splits)

lemma valid_refs_Close: "valid_refs (Close w)"
  by (simp add: Close_def valid_refs_def Let_def)

lemma valid_refs_step: "valid_refs w \<Longrightarrow> valid_refs (step c w)"
  by (cases c) (simp_all add: valid_refs_WriteHeader valid_refs_WritePacket
        valid_refs_Discontinuity valid_refs_Close)

lemma valid_refs_run: "valid_refs w \<Longrightarrow> valid_refs (run cs w)"
  unfolding run_def by (induction cs arbitrary: w) (simp_all add: valid_refs_step)

lemma valid_refs_new_Publisher: "valid_refs (new_Publisher a b c d e)"
  by (simp add: valid_refs_def new_Publisher_def)

lemma newSegment_pub_dcn:
  "dcn (pub (snd (newSegment e st w))) = (if activates e w then False else dcn (pub w))"
proof (cases "activates e w")
  case True
  let ?w1 = "finalize_current st w"
  let ?d = "targetDuration ?w1"
  from newSegment_activated[OF True, of st] obtain c and w3 where
    t: "take_segment e (seed_segNum e ?w1) = Inr w3"
    and c: "current (pub w3) = Some c"
    and n: "newSegment e st w = precreate e (publish e ?d
         (projr (trimSegments ?d (activate_current st ?d w3))))"
    by metis
  show ?thesis using True c
    by (simp add: n publish_pub trim_pub[OF targetDuration_nonzero] activate_current_pub)
next
  case False
  then show ?thesis by (simp add: newSegment_not_activated seed_segNum_pub)
qed

lemma WritePacket_pub_dcn:
  "dcn (pub (snd (WritePacket e pkt w))) =
     (if IsKeyFrame pkt \<and> activates e w then False else dcn (pub w))"
  by (simp add: WritePacket_snd newSegment_pub_dcn)

lemma WriteHeader_pub_dcn [simp]: "dcn (pub (snd (WriteHeader e streams w))) = dcn (pub w)"
  by (cases "mux_WriteHeader e streams") (simp add: WriteHeader_def Let_def)

lemma Close_pub_dcn [simp]: "dcn (pub (Close w)) = dcn (pub w)"
  by (simp add: Close_def Let_def)

lemma step_keeps_dcn_clear:
  "c \<noteq> DiscontinuityCall \<Longrightarrow> \<not> dcn (pub w) \<Longrightarrow> \<not> dcn (pub (step c w))"
  by (cases c) (simp_all add: WritePacket_pub_dcn)

lemma run_keeps_dcn_clear:
  "DiscontinuityCall \<notin> set cs \<Longrightarrow> \<not> dcn (pub w) \<Longrightarrow> \<not> dcn (pub (run cs w))"
proof (induction cs arbitrary: w)
  case Nil
  then show ?case by (simp add: run_def)
next
  case (Cons c cs)
  from Cons.prems have "c \<noteq> DiscontinuityCall" "DiscontinuityCall \<notin> set cs"
    by auto
  moreover from this Cons.prems have "\<not> dcn (pub (step c w))"
    by (simp only: step_keeps_dcn_clear not_False_eq_True)
  ultimately have "\<not> dcn (pub (run cs (step c w)))"
    by (rule_tac Cons.IH)
  then show ?case by (simp add: run_def)
qed

section \<open>The concrete publishers, evaluated\<close>

lemma live2_eval:
  "live2 =
   \<lparr>heap =
      [\<lparr>name = ''1000.ts'', start = 0, dur = 6400000000, dcn = False,
          phase = Finalized, payload = [71, 1, 2, 3, 4, 5]\<rparr>,
       \<lparr>name = ''1001.ts'', start = 6400000000, dur = 6000000000, dcn = False,
          phase = Active, payload = [71, 1, 2, 3]\<rparr>],
    pub =
      \<lparr>InitialDuration = 5000000000, BufferLength = 10000000000,
         WorkDir = ''/tmp'', Prefetch = False, Precreate = 0,
         segments = [0, 1], presegs = [], segNum = 1002, seq = 0,
         dcn = False, dcnseq = 0,
         state =
           Some
            \<lparr>playlist = ''#EXTM3U'' @ [CHR 0x0A] @ ''#EXT-X-VERSION:3'' @ [CHR 0x0A]
                 @ ''#EXT-X-TARGETDURATION:6'' @ [CHR 0x0A]
                 @ ''#EXT-X-MEDIA-SEQUENCE:0'' @ [CHR 0x0A]
                 @ ''1000.ts'' @ [CHR 0x0A] @ ''1001.ts'' @ [CHR 0x0A],
               hlsState.segments = [0, 1]\<rparr>,
         current = Some 1, muxBuf = [1, 2, 3], mux = Some (Muxer MuxBuf),
         muxHdr = [71]\<rparr>\<rparr>"
  by code_simp

lemma pre1_eval:
  "pre1 =
   \<lparr>heap =
      [\<lparr>name = ''1000.ts'', start = 0, dur = 5000000000, dcn = False,
          phase = Active, payload = [1, 2, 3]\<rparr>,
       \<lparr>name = ''1001.ts'', start = 0, dur = 0, dcn = False, phase = Created,
          payload = []\<rparr>],
    pub =
      \<lparr>InitialDuration = 5000000000, BufferLength = 10000000000,
         WorkDir = ''/tmp'', Prefetch = True, Precreate = 1, segments = [0],
         presegs = [1], segNum = 1002, seq = 0, dcn = False, dcnseq = 0,
         state =
           Some
            \<lparr>playlist = ''#EXTM3U'' @ [CHR 0x0A] @ ''#EXT-X-VERSION:3'' @ [CHR 0x0A]
                 @ ''#EXT-X-TARGETDURATION:5'' @ [CHR 0x0A]
                 @ ''#EXT-X-MEDIA-SEQUENCE:0'' @ [CHR 0x0A] @ ''1000.ts'' @ [CHR 0x0A],
               hlsState.segments = [0]\<rparr>,
         current = Some 0, muxBuf = [1, 2, 3], mux = Some (Muxer MuxBuf),
         muxHdr = []\<rparr>\<rparr>"
  by code_simp

lemma live10_eval:
  "live10 =
   \<lparr>heap =
      [\<lparr>name = ''1000.ts'', start = 0, dur = 6000000000, dcn = True, phase = Finalized, payload = [1, 2, 3]\<rparr>,
       \<lparr>name = ''1001.ts'', start = 6000000000, dur = 6000000000, dcn = False, phase = Finalized, payload = [1, 2, 3]\<rparr>,
       \<lparr>name = ''1002.ts'', start = 12000000000, dur = 6000000000, dcn = False, phase = Finalized, payload = [1, 2, 3]\<rparr>,
       \<lparr>name = ''1003.ts'', start = 18000000000, dur = 6000000000, dcn = False, phase = Finalized, payload = [1, 2, 3]\<rparr>,
       \<lparr>name = ''1004.ts'', start = 24000000000, dur = 6000000000, dcn = False, phase = Finalized, payload = [1, 2, 3]\<rparr>,
       \<lparr>name = ''1005.ts'', start = 30000000000, dur = 6000000000, dcn = False, phase = Finalized, payload = [1, 2, 3]\<rparr>,
       \<lparr>name = ''1006.ts'', start = 36000000000, dur = 6000000000, dcn = False, phase = Finalized, payload = [1, 2, 3]\<rparr>,
       \<lparr>name = ''1007.ts'', start = 42000000000, dur = 6000000000, dcn = False, phase = Finalized, payload = [1, 2, 3]\<rparr>,
       \<lparr>name = ''1008.ts'', start = 48000000000, dur = 6000000000, dcn = False, phase = Finalized, payload = [1, 2, 3]\<rparr>,
       \<lparr>name = ''1009.ts'', start = 54000000000, dur = 6000000000, dcn = False, phase = Active, payload = [1, 2, 3]\<rparr>],
    pub =
      \<lparr>InitialDuration = 5000000000, BufferLength = 10000000000,
         WorkDir = ''/tmp'', Prefetch = False, Precreate = 0,
         segments = [0, 1, 2, 3, 4, 5, 6, 7, 8, 9], presegs = [],
         segNum = 1010, seq = 0, dcn = False, dcnseq = 0,
         state =
           Some
            \<lparr>playlist = ''#EXTM3U'' @ [CHR 0x0A] @ ''#EXT-X-VERSION:3'' @ [CHR 0x0A] @ ''#EXT-X-TARGETDURATION:6'' @ [CHR 0x0A] @ ''#EXT-X-MEDIA-SEQUENCE:0'' @ [CHR 0x0A] @ ''1000.ts'' @ [CHR 0x0A] @ ''1001.ts'' @ [CHR 0x0A] @ ''1002.ts'' @ [CHR 0x0A] @ ''1003.ts'' @ [CHR 0x0A] @ ''1004.ts'' @ [CHR 0x0A] @ ''1005.ts'' @ [CHR 0x0A] @ ''1006.ts'' @ [CHR 0x0A] @ ''1007.ts'' @ [CHR 0x0A] @ ''1008.ts'' @ [CHR 0x0A] @ ''1009.ts'' @ [CHR 0x0A],
               hlsState.segments = [0, 1, 2, 3, 4, 5, 6, 7, 8, 9]\<rparr>,
         current = Some 9, muxBuf = [1, 2, 3], mux = Some (Muxer MuxBuf),
         muxHdr = []\<rparr>\<rparr>"
  by code_simp

lemma trim_count_le: "trim_count d w \<le> length (segments (pub w)) - 10"
  using keepSegments_ge_10[of "BufferLength (pub w)" d] by (simp add: trim_count_def)

lemma activate_payload [simp]: "payload (activate st d f s) = payload s"
  by (simp add: activate_def)

lemma activate_current_payload [simp]:
  "payload (heap (activate_current st d w) ! i) = payload (heap w ! i)"
proof (cases "current (pub w)")
  case None then show ?thesis by (simp add: activate_current_def)
next
  case (Some c)
  then show ?thesis
    by (cases "i = c"; cases "c < length (heap w)")
       (simp_all add: activate_current_heap list_update_beyond)
qed

lemma activate_current_len [simp]:
  "length (heap (activate_current st d w)) = length (heap w)"
  by (cases "current (pub w)") (simp_all add: activate_current_def upd_seg_def Let_def)

lemma trim_len [simp]: "d \<noteq> 0 \<Longrightarrow> length (heap (projr (trimSegments d w))) = length (heap w)"
  by (simp add: trim_heap)

lemma newSegment_len_mono: "length (heap w) \<le> length (heap (snd (newSegment e st w)))"
proof (cases "activates e w")
  case True
  let ?w1 = "finalize_current st w"
  let ?d = "targetDuration ?w1"
  from newSegment_activated[OF True, of st] obtain c and w3 where
    t: "take_segment e (seed_segNum e ?w1) = Inr w3"
    and c: "current (pub w3) = Some c"
    and n: "newSegment e st w = precreate e (publish e ?d
         (projr (trimSegments ?d (activate_current st ?d w3))))"
    by metis
  have "length (heap w) \<le> length (heap w3)"
    using take_segment_Inr[OF t] by (auto split: if_splits)
  then show ?thesis
    using precreate_len[of "publish e ?d (projr (trimSegments ?d (activate_current st ?d w3)))" e]
    by (simp add: n targetDuration_nonzero)
next
  case False
  then show ?thesis by (simp add: newSegment_not_activated)
qed

lemma newSegment_new_payload:
  assumes v: "valid_refs w"
    and i: "length (heap w) \<le> i" "i < length (heap (snd (newSegment e st w)))"
  shows "payload (heap (snd (newSegment e st w)) ! i) = muxHdr (pub w)"
proof (cases "activates e w")
  case False
  with i show ?thesis by (simp add: newSegment_not_activated)
next
  case True
  let ?w1 = "finalize_current st w"
  let ?d = "targetDuration ?w1"
  have d0: "?d \<noteq> 0" by (rule targetDuration_nonzero)
  from newSegment_activated[OF True, of st] obtain c0 :: ref and w3 where
    t: "take_segment e (seed_segNum e ?w1) = Inr w3"
    and n: "newSegment e st w = precreate e (publish e ?d
         (projr (trimSegments ?d (activate_current st ?d w3))))"
    by metis
  from take_segment_Inr[OF t] obtain c where
    p3: "pub w3 = (pub w)\<lparr>segNum := (if segNum (pub w) = 0 then now_UnixNano e else segNum (pub w)),
                           current := Some c, presegs := tl (presegs (pub w))\<rparr>"
    and h3: "if presegs (pub w) = []
               then c = length (heap w) \<and>
                    heap w3 = heap ?w1 @ [\<lparr>name = seg_name e (if segNum (pub w) = 0 then now_UnixNano e else segNum (pub w)), start = 0, dur = 0,
                       dcn = False, phase = Created, payload = muxHdr (pub w)\<rparr>]
               else c = hd (presegs (pub w)) \<and> heap w3 = heap ?w1"
    by (auto simp: seed_segNum_pub split: if_splits)
  let ?wa = "activate_current st ?d w3"
  let ?w4 = "projr (trimSegments ?d ?wa)"
  let ?wp = "publish e ?d ?w4"
  have c3: "current (pub w3) = Some c" by (simp add: p3)
  have sa: "segments (pub ?wa) = segments (pub w) @ [c]"
    by (simp add: activate_current_pub[OF c3] p3)
  have tk: "take (trim_count ?d ?wa) (segments (pub ?wa)) = take (trim_count ?d ?wa) (segments (pub w))"
    using trim_count_le[of ?d ?wa] by (simp add: sa)
  have notin: "i \<notin> set (take (trim_count ?d ?wa) (segments (pub ?wa)))"
  proof
    assume "i \<in> set (take (trim_count ?d ?wa) (segments (pub ?wa)))"
    then have "i \<in> set (segments (pub w))" unfolding tk by (rule in_set_takeD)
    then have "i < length (heap w)" using v by (simp add: valid_refs_def list_all_iff)
    with i show False by simp
  qed
  have p4: "payload (heap ?wp ! i) = payload (heap w3 ! i)"
    using notin by (simp add: trim_heap[OF d0] evict_heap_other)
  have lp: "length (heap ?wp) = length (heap w3)"
    by (simp add: d0)
  have hp: "muxHdr (pub ?wp) = muxHdr (pub w)"
    using c3 by (simp add: publish_pub trim_pub[OF d0] activate_current_pub p3)
  from precreate_shape[of e ?wp] obtain ss where
    h: "heap (snd (precreate e ?wp)) = heap ?wp @ ss"
    and s: "\<forall>s \<in> set ss. payload s = muxHdr (pub ?wp) \<and> phase s = Created"
    by blast
  show ?thesis
  proof (cases "i < length (heap ?wp)")
    case True
    then have "i < length (heap w3)" using lp by simp
    with i h3 have "presegs (pub w) = [] \<and> i = length (heap w)"
      by (auto split: if_splits)
    with h3 have "payload (heap w3 ! i) = muxHdr (pub w)"
      by (simp add: nth_append)
    with True p4 show ?thesis by (simp add: n h nth_append)
  next
    case False
    with i have "i - length (heap ?wp) < length ss" by (simp add: n h)
    then have "payload (ss ! (i - length (heap ?wp))) = muxHdr (pub ?wp)"
      using s by simp
    with False hp show ?thesis by (simp add: n h nth_append)
  qed
qed


lemma precreate_frame:
  "InitialDuration (pub (snd (precreate e w))) = InitialDuration (pub w)"
  "BufferLength (pub (snd (precreate e w))) = BufferLength (pub w)"
  "Precreate (pub (snd (precreate e w))) = Precreate (pub w)"
  "muxHdr (pub (snd (precreate e w))) = muxHdr (pub w)"
  "seq (pub (snd (precreate e w))) = seq (pub w)"
  "dcnseq (pub (snd (precreate e w))) = dcnseq (pub w)"
  "state (pub (snd (precreate e w))) = state (pub w)"
  using precreate_shape[of e w] by auto

lemma newSegment_frame:
  "InitialDuration (pub (snd (newSegment e st w))) = InitialDuration (pub w)"
  "BufferLength (pub (snd (newSegment e st w))) = BufferLength (pub w)"
  "Precreate (pub (snd (newSegment e st w))) = Precreate (pub w)"
  "muxHdr (pub (snd (newSegment e st w))) = muxHdr (pub w)"
proof -
  have "InitialDuration (pub (snd (newSegment e st w))) = InitialDuration (pub w)
      \<and> BufferLength (pub (snd (newSegment e st w))) = BufferLength (pub w)
      \<and> Precreate (pub (snd (newSegment e st w))) = Precreate (pub w)
      \<and> muxHdr (pub (snd (newSegment e st w))) = muxHdr (pub w)"
  proof (cases "activates e w")
    case True
    let ?w1 = "finalize_current st w"
    let ?d = "targetDuration ?w1"
    from newSegment_activated[OF True, of st] obtain c and w3 where
      t: "take_segment e (seed_segNum e ?w1) = Inr w3"
      and c: "current (pub w3) = Some c"
      and n: "newSegment e st w = precreate e (publish e ?d
           (projr (trimSegments ?d (activate_current st ?d w3))))"
      by metis
    from take_segment_Inr[OF t] obtain c' where
      "pub w3 = (pub (seed_segNum e ?w1))\<lparr>current := Some c', presegs := tl (presegs (pub (seed_segNum e ?w1)))\<rparr>"
      by blast
    then show ?thesis
      using c by (simp add: n precreate_frame publish_pub trim_pub[OF targetDuration_nonzero]
             activate_current_pub seed_segNum_pub)
  next
    case False
    then show ?thesis by (simp add: newSegment_not_activated seed_segNum_pub)
  qed
  then show
    "InitialDuration (pub (snd (newSegment e st w))) = InitialDuration (pub w)"
    "BufferLength (pub (snd (newSegment e st w))) = BufferLength (pub w)"
    "Precreate (pub (snd (newSegment e st w))) = Precreate (pub w)"
    "muxHdr (pub (snd (newSegment e st w))) = muxHdr (pub w)"
    by simp_all
qed

lemma write_current_payload:
  "prefix (payload (heap w ! i)) (payload (heap (snd (write_current e pkt w)) ! i))"
proof (cases "current (pub w)")
  case None
  then show ?thesis by (simp add: write_current_def)
next
  case (Some c)
  obtain out ok where m: "mux_WritePacket e pkt = (out, ok)"
    by (cases "mux_WritePacket e pkt")
  show ?thesis
  proof (cases "ok \<and> write_ok e (heap w ! c) out")
    case False
    with Some m have "heap (snd (write_current e pkt w)) = heap w"
      by (auto simp: write_current_def Write_def Let_def)
    then show ?thesis by simp
  next
    case True
    with Some m have
      "heap (snd (write_current e pkt w)) = (heap w)[c := (heap w ! c)\<lparr>payload := payload (heap w ! c) @ out\<rparr>]"
      by (simp add: write_current_def Write_def Let_def)
    then show ?thesis
      by (cases "i = c"; cases "c < length (heap w)") (simp_all add: list_update_beyond)
  qed
qed

lemma WritePacket_muxHdr: "muxHdr (pub (snd (WritePacket e pkt w))) = muxHdr (pub w)"
  by (simp add: WritePacket_snd newSegment_frame)

lemma WritePacket_len:
  "length (heap (snd (WritePacket e pkt w))) =
     (if IsKeyFrame pkt then length (heap (snd (newSegment e (Time pkt) w))) else length (heap w))"
  by (simp add: WritePacket_snd)

lemma WritePacket_new_payload:
  assumes v: "valid_refs w"
    and i: "length (heap w) \<le> i" "i < length (heap (snd (WritePacket e pkt w)))"
  shows "prefix (muxHdr (pub w)) (payload (heap (snd (WritePacket e pkt w)) ! i))"
proof (cases "IsKeyFrame pkt")
  case False
  with i show ?thesis by (simp add: WritePacket_len)
next
  case True
  let ?w1 = "snd (newSegment e (Time pkt) w)"
  from True i have "i < length (heap ?w1)" by (simp add: WritePacket_len)
  then have p: "payload (heap ?w1 ! i) = muxHdr (pub w)"
    using newSegment_new_payload[OF v i(1)] by simp
  show ?thesis
  proof (cases "fst (newSegment e (Time pkt) w) = None")
    case False
    then have "snd (WritePacket e pkt w) = ?w1" using True by (auto simp: WritePacket_snd)
    with p show ?thesis by simp
  next
    case n: True
    have "prefix (payload (heap ?w1 ! i)) (payload (heap (snd (write_current e pkt ?w1)) ! i))"
      by (rule write_current_payload)
    with True n p show ?thesis by (simp add: WritePacket_snd)
  qed
qed


section \<open>Properties of Close and of the HTTP handler after it\<close>

lemma Release_idem [simp]: "Release (Release s) = Release s"
  by (simp add: Release_def)

lemma release_all_len [simp]: "length (release_all rs h) = length h"
  by (induction rs arbitrary: h) simp_all

lemma release_all_nth:
  "r < length h \<Longrightarrow> release_all rs h ! r = (if r \<in> set rs then Release (h ! r) else h ! r)"
proof (induction rs arbitrary: h)
  case Nil
  then show ?case by simp
next
  case (Cons a rs)
  then show ?case by (cases "a = r") auto
qed

lemma release_all_beyond: "\<not> r < length h \<Longrightarrow> release_all rs h ! r = h ! r"
proof (induction rs arbitrary: h)
  case Nil
  then show ?case by simp
next
  case (Cons a rs)
  have "h[a := Release (h ! a)] ! r = h ! r"
    using Cons.prems by (cases "a = r") (simp_all add: list_update_beyond)
  with Cons show ?case by simp
qed

lemma Close_pub:
  "pub (Close w) = (pub w)\<lparr>state := Some \<lparr>playlist = [], hlsState.segments = []\<rparr>,
                        current := None, segments := [], presegs := []\<rparr>"
  by (simp add: Close_def Let_def)

lemma Close_heap:
  "heap (Close w) = release_all (presegs (pub w)) (release_all (segments (pub w)) (heap w))"
  by (simp add: Close_def Let_def)

lemma Close_idem: "Close (Close w) = Close w"
  by (simp add: Close_def Let_def)

lemma ServeHTTP_Close:
  "ServeHTTP (Close w) urlPath =
     (if Base urlPath = ''index.m3u8'' then PlaylistOK [] else NotFound)"
  by (simp add: ServeHTTP_def Close_pub Let_def)

lemma Base_playlist_path: "Base ''/live/index.m3u8'' = ''index.m3u8''"
  by (simp add: Base_def)

section \<open>Signed 64-bit arithmetic without overflow\<close>

lemma sint_of_int_64:
  "- (2 ^ 63) \<le> k \<Longrightarrow> k < 2 ^ 63 \<Longrightarrow> sint (word_of_int k :: 64 word) = k"
  by (simp add: sint_sbintrunc' signed_take_bit_int_eq_self)

lemma sint_of_nat_64: "n < 2 ^ 63 \<Longrightarrow> sint (of_nat n :: 64 word) = int n"
  using sint_of_int_64[of "int n"] by simp

lemma sint_range_64: "- (2 ^ 63) \<le> sint (x :: 64 word)" "sint (x :: 64 word) < 2 ^ 63"
  using sint_ge[of x] sint_lt[of x] by simp_all

lemma sint_add_64:
  "- (2 ^ 63) \<le> sint a + sint b \<Longrightarrow> sint a + sint b < 2 ^ 63 \<Longrightarrow>
   sint (a + b :: 64 word) = sint a + sint b"
  by (simp add: sint_word_ariths signed_take_bit_int_eq_self)

lemma sint_sub_64:
  "- (2 ^ 63) \<le> sint a - sint b \<Longrightarrow> sint a - sint b < 2 ^ 63 \<Longrightarrow>
   sint (a - b :: 64 word) = sint a - sint b"
  by (simp add: sint_word_ariths signed_take_bit_int_eq_self)

lemma word_eq_sint_64: "(a :: 64 word) = b \<longleftrightarrow> sint a = sint b"
  by (rule word_eq_iff_signed)

section \<open>The counters along a run\<close>

lemma trim_count_le_len: "trim_count d w \<le> length (segments (pub w))"
  using trim_count_le[of d w] by simp

lemma length_evicted_by_trim: "length (evicted_by_trim d w) = trim_count d w"
  by (simp add: evicted_by_trim_def trim_count_le_len min_absorb2)

lemma length_flagged_evicted_by_trim:
  "length (filter segment.dcn (evicted_by_trim d w)) =
   length (filter (\<lambda>r. segment.dcn (heap w ! r)) (take (trim_count d w) (segments (pub w))))"
  by (simp add: evicted_by_trim_def filter_map comp_def)

lemma trim_counters:
  assumes "d \<noteq> 0"
  shows "seq (pub (projr (trimSegments d w))) = seq (pub w) + of_nat (length (evicted_by_trim d w))"
    and "dcnseq (pub (projr (trimSegments d w))) =
           dcnseq (pub w) + of_nat (length (filter segment.dcn (evicted_by_trim d w)))"
  by (simp_all add: trim_pub[OF assms] length_evicted_by_trim length_flagged_evicted_by_trim)

lemma newSegment_counters:
  "seq (pub (snd (newSegment e st w))) = seq (pub w) + of_nat (length (newSegment_evicted e st w))
   \<and> dcnseq (pub (snd (newSegment e st w))) =
       dcnseq (pub w) + of_nat (length (filter segment.dcn (newSegment_evicted e st w)))"
proof (cases "activates e w")
  case True
  let ?w1 = "finalize_current st w"
  let ?d = "targetDuration ?w1"
  from newSegment_activated[OF True, of st] obtain c and w3 where
    t: "take_segment e (seed_segNum e ?w1) = Inr w3"
    and c: "current (pub w3) = Some c"
    and n: "newSegment e st w = precreate e (publish e ?d
         (projr (trimSegments ?d (activate_current st ?d w3))))"
    by metis
  from take_segment_Inr[OF t] obtain c' where
    p3: "pub w3 = (pub (seed_segNum e ?w1))\<lparr>current := Some c', presegs := tl (presegs (pub (seed_segNum e ?w1)))\<rparr>"
    by blast
  have ev: "newSegment_evicted e st w = evicted_by_trim ?d (activate_current st ?d w3)"
    using t by (simp add: newSegment_evicted_def Let_def)
  have "seq (pub (activate_current st ?d w3)) = seq (pub w)"
       "dcnseq (pub (activate_current st ?d w3)) = dcnseq (pub w)"
    using c p3 by (simp_all add: activate_current_pub seed_segNum_pub)
  then show ?thesis
    by (simp add: n ev precreate_frame publish_pub trim_counters[OF targetDuration_nonzero])
next
  case False
  have "\<not> activates e (finalize_current st w)"
    using False by (auto simp: activates_def split: if_splits)
  then have "\<not> (\<exists>w'. take_segment e (seed_segNum e (finalize_current st w)) = Inr w')"
    using take_segment_activates by blast
  then have "newSegment_evicted e st w = []"
    by (cases "take_segment e (seed_segNum e (finalize_current st w))")
       (auto simp: newSegment_evicted_def Let_def)
  with False show ?thesis by (simp add: newSegment_not_activated seed_segNum_pub)
qed

lemma WriteHeader_counters [simp]:
  "seq (pub (snd (WriteHeader e streams w))) = seq (pub w)"
  "dcnseq (pub (snd (WriteHeader e streams w))) = dcnseq (pub w)"
  by (cases "mux_WriteHeader e streams"; simp add: WriteHeader_def Let_def)+

lemma step_counters:
  "seq (pub (step c w)) = seq (pub w) + of_nat (length (evicted c w))
   \<and> dcnseq (pub (step c w)) = dcnseq (pub w) + of_nat (length (filter segment.dcn (evicted c w)))"
proof (cases c)
  case (WritePacketCall e pkt)
  then show ?thesis
    using newSegment_counters[of e "Time pkt" w] by (simp add: WritePacket_snd)
qed (simp_all add: Discontinuity_def Close_pub)

lemma run_counters:
  "seq (pub (run cs w)) = seq (pub w) + of_nat (length (evictions cs w))
   \<and> dcnseq (pub (run cs w)) = dcnseq (pub w) + of_nat (length (filter segment.dcn (evictions cs w)))"
proof (induction cs arbitrary: w)
  case Nil
  show ?case by (simp add: run_def)
next
  case (Cons c cs)
  have r: "run (c # cs) w = run cs (step c w)" by (simp add: run_def)
  show ?case
    using Cons[of "step c w"] step_counters[of c w] by (simp add: r)
qed

lemma evict1_heap:
  "heap (evict1 r w) = (heap w)[r := Release (heap w ! r)]"
  by (simp add: evict1_def upd_seg_def Let_def)

lemma evict_keeps_released:
  "phase (heap w ! i) = Released \<Longrightarrow> phase (heap (evict rs w) ! i) = Released"
proof (induction rs arbitrary: w)
  case Nil
  then show ?case by simp
next
  case (Cons r rs)
  have "phase (heap (evict1 r w) ! i) = Released"
    using Cons.prems
    by (cases "i = r"; cases "r < length (heap w)")
       (simp_all add: evict1_heap list_update_beyond Release_def)
  then show ?case using Cons.IH by simp
qed

lemma evict_released:
  "r \<in> set rs \<Longrightarrow> r < length (heap w) \<Longrightarrow> phase (heap (evict rs w) ! r) = Released"
proof (induction rs arbitrary: w)
  case Nil
  then show ?case by simp
next
  case (Cons a rs)
  show ?case
  proof (cases "a = r")
    case True
    then have "phase (heap (evict1 a w) ! r) = Released"
      using Cons.prems by (simp add: evict1_heap Release_def)
    then show ?thesis by (simp add: evict_keeps_released)
  next
    case False
    with Cons.prems have "r \<in> set rs" by simp
    moreover have "r < length (heap (evict1 a w))" using Cons.prems by (simp add: evict1_heap)
    ultimately show ?thesis using Cons.IH by simp
  qed
qed

lemma live10_next_evictions:
  "evictions [WritePacketCall env_ok (key_packet (60 * Second))] live10 =
     [\<lparr>name = ''1000.ts'', start = 0, dur = 6000000000, dcn = True,
       phase = Finalized, payload = [1, 2, 3]\<rparr>]"
  unfolding live10_eval by code_simp


section \<open>Created, windowed and queued segments along a run\<close>

lemma take_segment_len:
  "take_segment e w = Inr w' \<Longrightarrow>
   length (heap w') = (if presegs (pub w) = [] then Suc (length (heap w)) else length (heap w))"
  by (auto simp: take_segment_def new_segment_def split: list.splits sum.splits if_splits)

lemma take_segment_lists:
  "take_segment e w = Inr w' \<Longrightarrow>
   presegs (pub w') = tl (presegs (pub w)) \<and> segments (pub w') = segments (pub w)
   \<and> (\<exists>c. current (pub w') = Some c)"
  by (auto simp: take_segment_def new_segment_def split: list.splits sum.splits if_splits)

lemma activate_current_lists:
  "current (pub w) = Some c \<Longrightarrow>
   segments (pub (activate_current st d w)) = segments (pub w) @ [c]
   \<and> presegs (pub (activate_current st d w)) = presegs (pub w)"
  by (simp add: activate_current_pub)

lemma newSegment_unwindowed:
  "unwindowed (snd (newSegment e st w)) = unwindowed w + int (length (newSegment_evicted e st w))"
proof (cases "activates e w")
  case True
  let ?w1 = "finalize_current st w"
  let ?w2 = "seed_segNum e ?w1"
  let ?d = "targetDuration ?w1"
  have d0: "?d \<noteq> 0" by (rule targetDuration_nonzero)
  from newSegment_activated[OF True, of st] obtain c0 :: ref and w3 where
    t: "take_segment e ?w2 = Inr w3"
    and n: "newSegment e st w = precreate e (publish e ?d
         (projr (trimSegments ?d (activate_current st ?d w3))))"
    by metis
  let ?wa = "activate_current st ?d w3"
  let ?w4 = "projr (trimSegments ?d ?wa)"
  let ?wp = "publish e ?d ?w4"
  have l2: "length (heap ?w2) = length (heap w)" by simp
  have s2: "segments (pub ?w2) = segments (pub w)" "presegs (pub ?w2) = presegs (pub w)"
    by (simp_all add: seed_segNum_pub)
  from take_segment_lists[OF t] obtain c where
    c3: "current (pub w3) = Some c"
    and s3: "segments (pub w3) = segments (pub w)" "presegs (pub w3) = tl (presegs (pub w))"
    using s2 by auto
  have l3: "length (heap w3) = (if presegs (pub w) = [] then Suc (length (heap w)) else length (heap w))"
    using take_segment_len[OF t] l2 s2 by simp
  have sa: "segments (pub ?wa) = segments (pub w) @ [c]" "presegs (pub ?wa) = tl (presegs (pub w))"
    using activate_current_lists[OF c3, of st ?d] s3 by simp_all
  have la: "length (heap ?wa) = length (heap w3)" by simp
  have ev: "newSegment_evicted e st w = evicted_by_trim ?d ?wa"
    using t by (simp add: newSegment_evicted_def Let_def)
  have ua: "unwindowed ?wa = unwindowed w"
    unfolding unwindowed_def sa la l3 by (cases "presegs (pub w)") simp_all
  have s4: "segments (pub ?w4) = drop (trim_count ?d ?wa) (segments (pub ?wa))"
    "presegs (pub ?w4) = presegs (pub ?wa)"
    by (simp_all add: trim_pub[OF d0])
  have l4: "length (heap ?w4) = length (heap ?wa)" by (simp add: d0)
  have sp: "segments (pub ?wp) = segments (pub ?w4)" "presegs (pub ?wp) = presegs (pub ?w4)"
    "length (heap ?wp) = length (heap ?w4)"
    by (simp_all add: publish_pub)
  have up: "unwindowed ?wp = unwindowed ?wa + int (trim_count ?d ?wa)"
    unfolding unwindowed_def sp s4 l4 using trim_count_le_len[of ?d ?wa] by simp
  from precreate_shape[of e ?wp] obtain ss where
    hh: "heap (snd (precreate e ?wp)) = heap ?wp @ ss"
    and pp: "pub (snd (precreate e ?wp)) =
          (pub ?wp)\<lparr>presegs := presegs (pub ?wp) @ [length (heap ?wp) ..< length (heap ?wp) + length ss],
                  segNum := segNum (pub ?wp) + of_nat (length ss)\<rparr>"
    by blast
  have "unwindowed (snd (precreate e ?wp)) = unwindowed ?wp"
    unfolding unwindowed_def hh pp by simp
  then show ?thesis
    unfolding n up ua ev length_evicted_by_trim by simp
next
  case False
  have "\<not> activates e (finalize_current st w)"
    using False by (auto simp: activates_def split: if_splits)
  then have "\<not> (\<exists>w'. take_segment e (seed_segNum e (finalize_current st w)) = Inr w')"
    using take_segment_activates by blast
  then have "newSegment_evicted e st w = []"
    by (cases "take_segment e (seed_segNum e (finalize_current st w))")
       (auto simp: newSegment_evicted_def Let_def)
  with False show ?thesis
    by (simp add: newSegment_not_activated seed_segNum_pub unwindowed_def)
qed

lemma write_current_unwindowed [simp]:
  "unwindowed (snd (write_current e pkt w)) = unwindowed w"
  by (simp add: unwindowed_def)

lemma WriteHeader_unwindowed [simp]:
  "unwindowed (snd (WriteHeader e streams w)) = unwindowed w"
  by (cases "mux_WriteHeader e streams") (simp add: WriteHeader_def Let_def unwindowed_def)

lemma step_unwindowed:
  "c \<noteq> CloseCall \<Longrightarrow> unwindowed (step c w) = unwindowed w + int (length (evicted c w))"
proof (cases c)
  case (WritePacketCall e pkt)
  then show ?thesis
    using newSegment_unwindowed[of e "Time pkt" w] by (simp add: WritePacket_snd)
next
  case DiscontinuityCall
  then show ?thesis by (simp add: Discontinuity_def unwindowed_def)
qed simp_all

lemma run_unwindowed:
  "CloseCall \<notin> set cs \<Longrightarrow> unwindowed (run cs w) = unwindowed w + int (length (evictions cs w))"
proof (induction cs arbitrary: w)
  case Nil
  show ?case by (simp add: run_def)
next
  case (Cons c cs)
  have r: "run (c # cs) w = run cs (step c w)" by (simp add: run_def)
  from Cons.prems have c: "c \<noteq> CloseCall" and cs: "CloseCall \<notin> set cs"
    by (simp_all add: neq_commute)
  show ?case
    using Cons.IH[OF cs, of "step c w"] step_unwindowed[OF c, of w] by (simp add: r)
qed


lemma precreate_disabled:
  "sint (Precreate (pub w)) \<le> 0 \<Longrightarrow> precreate e w = (None, w)"
  by (simp add: precreate.simps[of e w])

lemma newSegment_presegs_empty:
  assumes "sint (Precreate (pub w)) \<le> 0" "presegs (pub w) = []"
  shows "presegs (pub (snd (newSegment e st w))) = []"
proof (cases "activates e w")
  case True
  let ?w1 = "finalize_current st w"
  let ?w2 = "seed_segNum e ?w1"
  let ?d = "targetDuration ?w1"
  have d0: "?d \<noteq> 0" by (rule targetDuration_nonzero)
  from newSegment_activated[OF True, of st] obtain c0 :: ref and w3 where
    t: "take_segment e ?w2 = Inr w3"
    and n: "newSegment e st w = precreate e (publish e ?d
         (projr (trimSegments ?d (activate_current st ?d w3))))"
    by metis
  let ?wp = "publish e ?d (projr (trimSegments ?d (activate_current st ?d w3)))"
  have s2: "presegs (pub ?w2) = []" "Precreate (pub ?w2) = Precreate (pub w)"
    using assms by (simp_all add: seed_segNum_pub)
  from take_segment_Inr[OF t] obtain c where
    p3: "pub w3 = (pub ?w2)\<lparr>current := Some c, presegs := tl (presegs (pub ?w2))\<rparr>"
    by blast
  have c3: "current (pub w3) = Some c" by (simp add: p3)
  have "presegs (pub ?wp) = []" "Precreate (pub ?wp) = Precreate (pub w)"
    using s2 by (simp_all add: publish_pub trim_pub[OF d0] activate_current_pub[OF c3] p3)
  then show ?thesis
    using assms(1) by (simp add: n precreate_disabled)
next
  case False
  with assms show ?thesis by (simp add: newSegment_not_activated seed_segNum_pub)
qed

lemma WriteHeader_frame [simp]:
  "Precreate (pub (snd (WriteHeader e streams w))) = Precreate (pub w)"
  "presegs (pub (snd (WriteHeader e streams w))) = presegs (pub w)"
  "segments (pub (snd (WriteHeader e streams w))) = segments (pub w)"
  by (cases "mux_WriteHeader e streams"; simp add: WriteHeader_def Let_def)+

lemma write_current_Precreate [simp]:
  "Precreate (pub (snd (write_current e pkt w))) = Precreate (pub w)"
  by (simp add: write_current_pub split: option.splits)

lemma step_Precreate [simp]: "Precreate (pub (step c w)) = Precreate (pub w)"
  by (cases c) (simp_all add: WritePacket_snd newSegment_frame Discontinuity_def Close_pub)

lemma step_presegs_empty:
  "sint (Precreate (pub w)) \<le> 0 \<Longrightarrow> presegs (pub w) = [] \<Longrightarrow> presegs (pub (step c w)) = []"
  by (cases c)
     (simp_all add: WritePacket_snd newSegment_presegs_empty Discontinuity_def Close_pub)

lemma run_presegs_empty:
  "sint (Precreate (pub w)) \<le> 0 \<Longrightarrow> presegs (pub w) = [] \<Longrightarrow> presegs (pub (run cs w)) = []"
proof (induction cs arbitrary: w)
  case Nil
  then show ?case by (simp add: run_def)
next
  case (Cons c cs)
  have r: "run (c # cs) w = run cs (step c w)" by (simp add: run_def)
  show ?case
    unfolding r using Cons.prems by (intro Cons.IH) (simp_all add: step_presegs_empty)
qed


section \<open>Packets before the first keyframe\<close>

text \<open>
  Claim C7. A packet that is not a keyframe and arrives while no segment is active (no
  keyframe has been seen yet) is dropped: \<open>WritePacket\<close> returns no error and the
  publisher and the store are exactly as they were.
\<close>

theorem C7_packet_before_first_keyframe_dropped:
  "\<not> IsKeyFrame pkt \<Longrightarrow> current (pub w) = None \<Longrightarrow> WritePacket e pkt w = (None, w)"
  by (simp add: WritePacket_def write_current_def)

theorem C7_witness:
  "\<not> IsKeyFrame (delta_packet 7) \<and> current (pub pub0) = None
   \<and> WritePacket env_ok (delta_packet 7) pub0 = (None, pub0)"
  using C7_packet_before_first_keyframe_dropped [of "delta_packet 7" pub0 env_ok]
  by (simp add: delta_packet_def pub0_def new_Publisher_def)

section \<open>Discontinuities\<close>

lemma activates_env_ok: "activates env_ok w"
  by (simp add: activates_def env_ok_def)

text \<open>
  Claim C6. \<open>Discontinuity\<close> only sets the pending flag of the publisher: the store, and so
  the segment that is receiving packets, is untouched. The flag is consumed by the next
  activation: the activated segment takes the flag's value, the flag is cleared, and the
  flag of no other segment changes; a keyframe that activates nothing leaves the flag
  pending. After an activation, any calls other than \<open>Discontinuity\<close> may follow, and the
  segment activated next has its flag clear.
\<close>

theorem C6_discontinuity_marks_next_activation_only:
  "heap (Discontinuity w) = heap w \<and> pub (Discontinuity w) = (pub w)\<lparr>dcn := True\<rparr>
   \<and> (\<not> activates e w \<longrightarrow> dcn (pub (snd (newSegment e st w))) = dcn (pub w))
   \<and> (activates e w \<and> valid_refs w \<longrightarrow>
        (\<exists>c. current (pub (snd (newSegment e st w))) = Some c
           \<and> segment.dcn (heap (snd (newSegment e st w)) ! c) = dcn (pub w)
           \<and> \<not> dcn (pub (snd (newSegment e st w)))
           \<and> (\<forall>i. i < length (heap w) \<and> i \<noteq> c \<longrightarrow>
                 segment.dcn (heap (snd (newSegment e st w)) ! i) = segment.dcn (heap w ! i))))
   \<and> (activates e w \<and> valid_refs w \<and> DiscontinuityCall \<notin> set cs
        \<and> activates e' (run cs (snd (newSegment e st w))) \<longrightarrow>
        (\<exists>c'. current (pub (snd (newSegment e' st' (run cs (snd (newSegment e st w)))))) = Some c'
           \<and> \<not> segment.dcn (heap (snd (newSegment e' st' (run cs (snd (newSegment e st w))))) ! c')))"
proof (intro conjI impI)
  show "heap (Discontinuity w) = heap w" by (simp add: Discontinuity_def)
  show "pub (Discontinuity w) = (pub w)\<lparr>dcn := True\<rparr>" by (simp add: Discontinuity_def)
next
  assume "\<not> activates e w"
  then show "dcn (pub (snd (newSegment e st w))) = dcn (pub w)"
    by (simp add: newSegment_pub_dcn)
next
  assume a: "activates e w \<and> valid_refs w"
  from newSegment_dcn_flags[of e w st] a obtain c where
    "current (pub (snd (newSegment e st w))) = Some c"
    "segment.dcn (heap (snd (newSegment e st w)) ! c) = dcn (pub w)"
    "\<not> dcn (pub (snd (newSegment e st w)))"
    "\<And>i. i < length (heap w) \<Longrightarrow> i \<noteq> c \<Longrightarrow>
        segment.dcn (heap (snd (newSegment e st w)) ! i) = segment.dcn (heap w ! i)"
    by metis
  then show "\<exists>c. current (pub (snd (newSegment e st w))) = Some c
           \<and> segment.dcn (heap (snd (newSegment e st w)) ! c) = dcn (pub w)
           \<and> \<not> dcn (pub (snd (newSegment e st w)))
           \<and> (\<forall>i. i < length (heap w) \<and> i \<noteq> c \<longrightarrow>
                 segment.dcn (heap (snd (newSegment e st w)) ! i) = segment.dcn (heap w ! i))"
    by blast
next
  let ?w1 = "snd (newSegment e st w)"
  let ?w2 = "run cs ?w1"
  assume a: "activates e w \<and> valid_refs w \<and> DiscontinuityCall \<notin> set cs \<and> activates e' ?w2"
  have "\<not> dcn (pub ?w1)" using a by (simp add: newSegment_pub_dcn)
  then have d: "\<not> dcn (pub ?w2)" using a by (simp add: run_keeps_dcn_clear)
  have v: "valid_refs ?w2" using a by (simp add: valid_refs_run valid_refs_newSegment)
  from newSegment_dcn_flags[of e' ?w2 st'] a v obtain c' where
    "current (pub (snd (newSegment e' st' ?w2))) = Some c'"
    "segment.dcn (heap (snd (newSegment e' st' ?w2)) ! c') = dcn (pub ?w2)"
    by metis
  with d show "\<exists>c'. current (pub (snd (newSegment e' st' ?w2))) = Some c'
           \<and> \<not> segment.dcn (heap (snd (newSegment e' st' ?w2)) ! c')"
    by simp
qed



theorem C6_witness:
  "activates env_ok (Discontinuity pub0) \<and> valid_refs (Discontinuity pub0)
   \<and> DiscontinuityCall \<notin> set [WritePacketCall env_ok (delta_packet 1)]
   \<and> activates env_ok (run [WritePacketCall env_ok (delta_packet 1)]
          (snd (newSegment env_ok 0 (Discontinuity pub0))))
   \<and> dcn (pub (Discontinuity pub0))
   \<and> (\<exists>c. current (pub (snd (newSegment env_ok 0 (Discontinuity pub0)))) = Some c
          \<and> segment.dcn (heap (snd (newSegment env_ok 0 (Discontinuity pub0))) ! c)
          \<and> \<not> dcn (pub (snd (newSegment env_ok 0 (Discontinuity pub0)))))
   \<and> (\<exists>c'. current (pub (snd (newSegment env_ok (6 * Second)
                (run [WritePacketCall env_ok (delta_packet 1)]
                   (snd (newSegment env_ok 0 (Discontinuity pub0))))))) = Some c'
          \<and> \<not> segment.dcn (heap (snd (newSegment env_ok (6 * Second)
                (run [WritePacketCall env_ok (delta_packet 1)]
                   (snd (newSegment env_ok 0 (Discontinuity pub0)))))) ! c'))"
proof -
  have v: "valid_refs (Discontinuity pub0)"
    by (simp add: valid_refs_Discontinuity pub0_def valid_refs_new_Publisher)
  have d: "dcn (pub (Discontinuity pub0))"
    by (simp add: Discontinuity_def)
  have n: "DiscontinuityCall \<notin> set [WritePacketCall env_ok (delta_packet 1)]"
    by simp
  show ?thesis
    using C6_discontinuity_marks_next_activation_only
            [of "Discontinuity pub0" env_ok 0 "[WritePacketCall env_ok (delta_packet 1)]"
                env_ok "6 * Second"]
          v d n activates_env_ok
    by simp blast
qed

section \<open>Close\<close>

text \<open>
  Claim C4 as stated fails for the playlist: \<open>Close\<close> stores an empty snapshot, which is
  still a snapshot, so a request for the playlist of a closed publisher is answered with
  the (empty) playlist, not with not-found.
\<close>

theorem C4_counterexample:
  "ServeHTTP (Close live2) ''/live/index.m3u8'' = PlaylistOK []
   \<and> ServeHTTP (Close live2) ''/live/index.m3u8'' \<noteq> NotFound"
  by (simp add: ServeHTTP_Close Base_playlist_path)

text \<open>
  Claim C4, amended. \<open>Close\<close> publishes the empty snapshot (no playlist bytes, no
  segments), releases every segment of \<open>segments\<close> and \<open>presegs\<close> and no other, clears
  \<open>current\<close>, \<open>segments\<close> and \<open>presegs\<close>, and closing twice is closing once. After
  \<open>Close\<close> every request whose base name is not the playlist name, so every request for
  a segment name, is answered not-found.
\<close>

theorem C4_close_releases_and_unpublishes:
  "state (pub (Close w)) = Some \<lparr>playlist = [], hlsState.segments = []\<rparr>
   \<and> current (pub (Close w)) = None \<and> segments (pub (Close w)) = []
   \<and> presegs (pub (Close w)) = []
   \<and> length (heap (Close w)) = length (heap w)
   \<and> (\<forall>r. r < length (heap w) \<and> r \<in> set (segments (pub w)) \<union> set (presegs (pub w))
          \<longrightarrow> heap (Close w) ! r = Release (heap w ! r)
              \<and> phase (heap (Close w) ! r) = Released)
   \<and> (\<forall>r. r \<notin> set (segments (pub w)) \<union> set (presegs (pub w))
          \<longrightarrow> heap (Close w) ! r = heap w ! r)
   \<and> Close (Close w) = Close w
   \<and> (\<forall>urlPath. Base urlPath \<noteq> ''index.m3u8'' \<longrightarrow> ServeHTTP (Close w) urlPath = NotFound)"
proof (intro conjI allI impI)
  fix r
  assume a: "r < length (heap w) \<and> r \<in> set (segments (pub w)) \<union> set (presegs (pub w))"
  then show h: "heap (Close w) ! r = Release (heap w ! r)"
    by (auto simp: Close_heap release_all_nth)
  then show "phase (heap (Close w) ! r) = Released"
    by (simp add: Release_def)
next
  fix r
  assume "r \<notin> set (segments (pub w)) \<union> set (presegs (pub w))"
  then show "heap (Close w) ! r = heap w ! r"
    by (cases "r < length (heap w)") (simp_all add: Close_heap release_all_nth release_all_beyond)
qed (simp_all add: Close_pub Close_heap Close_idem ServeHTTP_Close)

theorem C4_witness:
  "(1::nat) < length (heap live2) \<and> 1 \<in> set (segments (pub live2)) \<union> set (presegs (pub live2))
   \<and> Base ''/live/1001.ts'' \<noteq> ''index.m3u8''
   \<and> phase (heap live2 ! 1) = Active
   \<and> phase (heap (Close live2) ! 1) = Released
   \<and> ServeHTTP live2 ''/live/1001.ts'' = SegmentServe 1
   \<and> ServeHTTP (Close live2) ''/live/1001.ts'' = NotFound
   \<and> Close (Close live2) = Close live2"
proof -
  have a: "(1::nat) < length (heap live2) \<and> 1 \<in> set (segments (pub live2)) \<union> set (presegs (pub live2))"
    by (simp add: live2_eval)
  have b: "Base ''/live/1001.ts'' \<noteq> ''index.m3u8''"
    by (simp add: Base_def)
  have c: "phase (heap live2 ! 1) = Active"
    by (simp add: live2_eval)
  have d: "ServeHTTP live2 ''/live/1001.ts'' = SegmentServe 1"
    by (simp add: live2_eval ServeHTTP_def Base_def)
  show ?thesis
    using C4_close_releases_and_unpublishes [of live2] a b c d by (simp add: Release_def)
qed

section \<open>HTTP dispatch\<close>





section \<open>The muxed header\<close>

text \<open>
  Claim C10. \<open>WriteHeader\<close> may be called at any time and again: a successful call stores
  the header bytes the muxer wrote in place of the earlier ones, a failed call leaves them,
  and no call touches a segment of the store, so segments created earlier keep what they
  hold. \<open>WritePacket\<close> and \<open>Discontinuity\<close> leave the stored header as it is, and every
  segment that a \<open>WritePacket\<close> creates, whether it is activated at once or precreated,
  starts with the header stored at that time.
\<close>

theorem C10_header_replaced_and_used_by_new_segments:
  "heap (snd (WriteHeader e streams w)) = heap w
   \<and> (snd (mux_WriteHeader e streams) \<longrightarrow>
        fst (WriteHeader e streams w) = None
        \<and> muxHdr (pub (snd (WriteHeader e streams w))) = fst (mux_WriteHeader e streams))
   \<and> (\<not> snd (mux_WriteHeader e streams) \<longrightarrow>
        fst (WriteHeader e streams w) = Some MuxError
        \<and> muxHdr (pub (snd (WriteHeader e streams w))) = muxHdr (pub w))
   \<and> muxHdr (pub (snd (WritePacket e' pkt w))) = muxHdr (pub w)
   \<and> muxHdr (pub (Discontinuity w)) = muxHdr (pub w)
   \<and> (valid_refs w \<longrightarrow>
        (\<forall>i. length (heap w) \<le> i \<and> i < length (heap (snd (WritePacket e' pkt w))) \<longrightarrow>
           prefix (muxHdr (pub w)) (payload (heap (snd (WritePacket e' pkt w)) ! i))))"
proof -
  obtain tsb ok where m: "mux_WriteHeader e streams = (tsb, ok)"
    by (cases "mux_WriteHeader e streams")
  have 1: "heap (snd (WriteHeader e streams w)) = heap w"
    using m by (simp add: WriteHeader_def Let_def)
  have 2: "snd (mux_WriteHeader e streams) \<longrightarrow>
        fst (WriteHeader e streams w) = None
        \<and> muxHdr (pub (snd (WriteHeader e streams w))) = fst (mux_WriteHeader e streams)"
    using m by (simp add: WriteHeader_def Let_def)
  have 3: "\<not> snd (mux_WriteHeader e streams) \<longrightarrow>
        fst (WriteHeader e streams w) = Some MuxError
        \<and> muxHdr (pub (snd (WriteHeader e streams w))) = muxHdr (pub w)"
    using m by (simp add: WriteHeader_def Let_def)
  have 4: "muxHdr (pub (Discontinuity w)) = muxHdr (pub w)"
    by (simp add: Discontinuity_def)
  show ?thesis
    using 1 2 3 4 WritePacket_muxHdr[of e' pkt w] WritePacket_new_payload[of w _ e' pkt]
    by blast
qed


theorem C10_witness:
  "snd (mux_WriteHeader env_hdr2 [1])
   \<and> fst (WriteHeader env_hdr2 [1] live2) = None
   \<and> muxHdr (pub live2) = [0x47]
   \<and> muxHdr (pub (snd (WriteHeader env_hdr2 [1] live2))) = [0x47, 0x40]
   \<and> heap (snd (WriteHeader env_hdr2 [1] live2)) = heap live2
   \<and> valid_refs (snd (WriteHeader env_hdr2 [1] live2))
   \<and> length (heap (snd (WriteHeader env_hdr2 [1] live2))) = 2
   \<and> length (heap (snd (WritePacket env_ok (key_packet 12000000000)
                  (snd (WriteHeader env_hdr2 [1] live2))))) = 3
   \<and> prefix [0x47, 0x40]
        (payload (heap (snd (WritePacket env_ok (key_packet 12000000000)
                  (snd (WriteHeader env_hdr2 [1] live2)))) ! 2))"
proof -
  let ?w = "snd (WriteHeader env_hdr2 [1] live2)"
  have a: "snd (mux_WriteHeader env_hdr2 [1])"
    and a': "fst (mux_WriteHeader env_hdr2 [1]) = [0x47, 0x40]"
    by (simp_all add: env_hdr2_def)
  have b: "muxHdr (pub live2) = [0x47]" "length (heap live2) = 2"
    by (simp_all add: live2_eval)
  have v: "valid_refs ?w"
    by (simp add: valid_refs_WriteHeader live2_def pub0_def valid_refs_run valid_refs_new_Publisher)
  have l: "length (heap (snd (WritePacket env_ok (key_packet 12000000000) ?w))) = 3"
    unfolding live2_eval by code_simp
  from C10_header_replaced_and_used_by_new_segments [of env_hdr2 "[1]" live2] a a'
  have h: "heap ?w = heap live2" "fst (WriteHeader env_hdr2 [1] live2) = None"
    "muxHdr (pub ?w) = [0x47, 0x40]"
    by simp_all
  from C10_header_replaced_and_used_by_new_segments [of env_ok "[]" ?w env_ok "key_packet 12000000000"] v
  have "\<forall>i. length (heap ?w) \<le> i \<and> i < length (heap (snd (WritePacket env_ok (key_packet 12000000000) ?w)))
          \<longrightarrow> prefix (muxHdr (pub ?w))
                (payload (heap (snd (WritePacket env_ok (key_packet 12000000000) ?w)) ! i))"
    by blast
  then have "prefix [0x47, 0x40]
        (payload (heap (snd (WritePacket env_ok (key_packet 12000000000) ?w)) ! 2))"
    using h b l by simp
  then show ?thesis
    using a b v l h by simp
qed

section \<open>Eviction and the sequence counters\<close>

text \<open>
  Claim C3. Each pass of the eviction loop adds exactly one to \<open>seq\<close>, adds one to
  \<open>dcnseq\<close> exactly when the evicted segment carries the discontinuity flag, and releases
  the segment. A trim therefore adds the number of segments it evicts to \<open>seq\<close> and the
  number of flagged ones among them to \<open>dcnseq\<close>, drops them from the front of the window
  and leaves them released. A new publisher starts with both counters at zero, and along
  any run \<open>seq\<close> grows by the number of segments evicted and \<open>dcnseq\<close> by the number of
  flagged segments evicted (as long as the 64-bit counters do not overflow).
\<close>

theorem C3_each_eviction_counted_once:
  "seq (pub (evict1 seg w)) = seq (pub w) + 1
   \<and> dcnseq (pub (evict1 seg w)) =
       dcnseq (pub w) + (if segment.dcn (heap w ! seg) then 1 else 0)
   \<and> (seg < length (heap w) \<longrightarrow> heap (evict1 seg w) ! seg = Release (heap w ! seg))
   \<and> (segmentLen \<noteq> 0 \<longrightarrow>
        (\<exists>w'. trimSegments segmentLen w = Inr w'
           \<and> seq (pub w') = seq (pub w) + of_nat (length (evicted_by_trim segmentLen w))
           \<and> dcnseq (pub w') =
               dcnseq (pub w) + of_nat (length (filter segment.dcn (evicted_by_trim segmentLen w)))
           \<and> segments (pub w') = drop (length (evicted_by_trim segmentLen w)) (segments (pub w))
           \<and> (\<forall>r \<in> set (take (length (evicted_by_trim segmentLen w)) (segments (pub w))).
                 r < length (heap w) \<longrightarrow> phase (heap w' ! r) = Released)))
   \<and> seq (pub (new_Publisher cfgI cfgB cfgW cfgP cfgN)) = 0
   \<and> dcnseq (pub (new_Publisher cfgI cfgB cfgW cfgP cfgN)) = 0
   \<and> (0 \<le> sint (seq (pub w)) \<and> sint (seq (pub w)) + int (length (evictions cs w)) < 2 ^ 63 \<longrightarrow>
        sint (seq (pub (run cs w))) = sint (seq (pub w)) + int (length (evictions cs w)))
   \<and> (0 \<le> sint (dcnseq (pub w))
        \<and> sint (dcnseq (pub w)) + int (length (filter segment.dcn (evictions cs w))) < 2 ^ 63 \<longrightarrow>
        sint (dcnseq (pub (run cs w))) =
          sint (dcnseq (pub w)) + int (length (filter segment.dcn (evictions cs w))))"
proof (intro conjI impI)
  show "seq (pub (evict1 seg w)) = seq (pub w) + 1"
    by (simp add: evict1_pub)
  show "dcnseq (pub (evict1 seg w)) = dcnseq (pub w) + (if segment.dcn (heap w ! seg) then 1 else 0)"
    by (simp add: evict1_pub)
  show "seq (pub (new_Publisher cfgI cfgB cfgW cfgP cfgN)) = 0"
    by (simp add: new_Publisher_def)
  show "dcnseq (pub (new_Publisher cfgI cfgB cfgW cfgP cfgN)) = 0"
    by (simp add: new_Publisher_def)
next
  assume "seg < length (heap w)"
  then show "heap (evict1 seg w) ! seg = Release (heap w ! seg)"
    by (simp add: evict1_heap)
next
  assume d: "segmentLen \<noteq> 0"
  let ?w' = "projr (trimSegments segmentLen w)"
  have "trimSegments segmentLen w = Inr ?w'" by (rule trim_isr[OF d])
  moreover have "seq (pub ?w') = seq (pub w) + of_nat (length (evicted_by_trim segmentLen w))"
    by (rule trim_counters(1)[OF d])
  moreover have "dcnseq (pub ?w') =
       dcnseq (pub w) + of_nat (length (filter segment.dcn (evicted_by_trim segmentLen w)))"
    by (rule trim_counters(2)[OF d])
  moreover have "segments (pub ?w') = drop (length (evicted_by_trim segmentLen w)) (segments (pub w))"
    by (simp add: trim_pub[OF d] length_evicted_by_trim)
  moreover have "\<forall>r \<in> set (take (length (evicted_by_trim segmentLen w)) (segments (pub w))).
                 r < length (heap w) \<longrightarrow> phase (heap ?w' ! r) = Released"
    by (simp add: trim_heap[OF d] length_evicted_by_trim evict_released)
  ultimately show "\<exists>w'. trimSegments segmentLen w = Inr w'
           \<and> seq (pub w') = seq (pub w) + of_nat (length (evicted_by_trim segmentLen w))
           \<and> dcnseq (pub w') =
               dcnseq (pub w) + of_nat (length (filter segment.dcn (evicted_by_trim segmentLen w)))
           \<and> segments (pub w') = drop (length (evicted_by_trim segmentLen w)) (segments (pub w))
           \<and> (\<forall>r \<in> set (take (length (evicted_by_trim segmentLen w)) (segments (pub w))).
                 r < length (heap w) \<longrightarrow> phase (heap w' ! r) = Released)"
    by blast
next
  let ?n = "length (evictions cs w)"
  assume a: "0 \<le> sint (seq (pub w)) \<and> sint (seq (pub w)) + int ?n < 2 ^ 63"
  then have "int ?n < 2 ^ 63" by linarith
  then have n: "?n < 2 ^ 63" by simp
  have "sint (seq (pub w) + of_nat ?n) = sint (seq (pub w)) + sint (of_nat ?n :: 64 word)"
    using a n by (intro sint_add_64) (simp_all add: sint_of_nat_64)
  then show "sint (seq (pub (run cs w))) = sint (seq (pub w)) + int ?n"
    using n run_counters[of cs w] by (simp add: sint_of_nat_64)
next
  let ?n = "length (filter segment.dcn (evictions cs w))"
  assume a: "0 \<le> sint (dcnseq (pub w)) \<and> sint (dcnseq (pub w)) + int ?n < 2 ^ 63"
  then have "int ?n < 2 ^ 63" by linarith
  then have n: "?n < 2 ^ 63" by simp
  have "sint (dcnseq (pub w) + of_nat ?n) = sint (dcnseq (pub w)) + sint (of_nat ?n :: 64 word)"
    using a n by (intro sint_add_64) (simp_all add: sint_of_nat_64)
  then show "sint (dcnseq (pub (run cs w))) = sint (dcnseq (pub w)) + int ?n"
    using n run_counters[of cs w] by (simp add: sint_of_nat_64)
qed


theorem C3_witness:
  "(0::nat) < length (heap live10) \<and> 6 * Second \<noteq> 0
   \<and> 0 \<le> sint (seq (pub live10)) \<and> 0 \<le> sint (dcnseq (pub live10))
   \<and> sint (seq (pub live10))
         + int (length (evictions [WritePacketCall env_ok (key_packet (60 * Second))] live10))
       < 2 ^ 63
   \<and> sint (dcnseq (pub live10))
         + int (length (filter segment.dcn
               (evictions [WritePacketCall env_ok (key_packet (60 * Second))] live10)))
       < 2 ^ 63
   \<and> seq (pub (evict1 0 live10)) = 1 \<and> dcnseq (pub (evict1 0 live10)) = 1
   \<and> phase (heap (evict1 0 live10) ! 0) = Released
   \<and> (\<exists>w'. trimSegments (6 * Second) live10 = Inr w')
   \<and> sint (seq (pub (run [WritePacketCall env_ok (key_packet (60 * Second))] live10))) = 1
   \<and> sint (dcnseq (pub (run [WritePacketCall env_ok (key_packet (60 * Second))] live10))) = 1"
proof -
  let ?cs = "[WritePacketCall env_ok (key_packet (60 * Second))]"
  have a: "(0::nat) < length (heap live10)" "sint (seq (pub live10)) = 0"
    "sint (dcnseq (pub live10)) = 0" "segment.dcn (heap live10 ! 0)"
    "seq (pub live10) = 0" "dcnseq (pub live10) = 0"
    by (simp_all add: live10_eval)
  have s: "6 * Second \<noteq> 0" by (simp add: Second_def)
  have n: "length (evictions ?cs live10) = 1"
    "length (filter segment.dcn (evictions ?cs live10)) = 1"
    by (simp_all del: evictions.simps add: live10_next_evictions)
  show ?thesis
    using C3_each_eviction_counted_once [of 0 live10 "6 * Second" 0 0 "[]" False 0 ?cs] a s n
    by (auto simp: Release_def simp del: evictions.simps)
qed

section \<open>Accounting for the segments created\<close>

text \<open>
  Claim C8 as stated fails twice over. A publisher that precreates segments has created
  more segments than \<open>seq\<close> plus the length of the window: after its first keyframe one
  segment is in the window and one is queued. And \<open>Close\<close> empties the window without
  counting its segments.
\<close>

theorem C8_counterexample:
  "sint (seq (pub pre1)) + int (length (segments (pub pre1))) \<noteq> int (length (heap pre1))
   \<and> sint (seq (pub (Close live2))) + int (length (segments (pub (Close live2))))
       \<noteq> int (length (heap (Close live2)))"
  by (simp add: pre1_eval live2_eval Close_pub Close_heap)

text \<open>
  Claim C8, amended. At every point of a run in which \<open>Close\<close> has not been called,
  \<open>seq\<close> plus the length of \<open>segments\<close> plus the length of \<open>presegs\<close> is the number of
  segments created so far (the size of the store), as long as that number stays below
  \<open>2^63\<close>; when precreation is off, \<open>presegs\<close> is empty and \<open>seq\<close> plus the length of
  \<open>segments\<close> is that number.
\<close>

theorem C8_created_segments_accounted_until_close:
  "CloseCall \<notin> set cs
   \<and> length (heap (run cs (new_Publisher cfgI cfgB cfgW cfgP cfgN))) < 2 ^ 63 \<longrightarrow>
     sint (seq (pub (run cs (new_Publisher cfgI cfgB cfgW cfgP cfgN))))
       + int (length (segments (pub (run cs (new_Publisher cfgI cfgB cfgW cfgP cfgN)))))
       + int (length (presegs (pub (run cs (new_Publisher cfgI cfgB cfgW cfgP cfgN)))))
     = int (length (heap (run cs (new_Publisher cfgI cfgB cfgW cfgP cfgN))))
     \<and> (sint cfgN \<le> 0 \<longrightarrow>
          sint (seq (pub (run cs (new_Publisher cfgI cfgB cfgW cfgP cfgN))))
            + int (length (segments (pub (run cs (new_Publisher cfgI cfgB cfgW cfgP cfgN)))))
          = int (length (heap (run cs (new_Publisher cfgI cfgB cfgW cfgP cfgN)))))"
proof (intro impI)
  let ?w0 = "new_Publisher cfgI cfgB cfgW cfgP cfgN"
  let ?W = "run cs ?w0"
  let ?n = "length (evictions cs ?w0)"
  assume a: "CloseCall \<notin> set cs \<and> length (heap ?W) < 2 ^ 63"
  have u0: "unwindowed ?w0 = 0" "seq (pub ?w0) = 0"
    by (simp_all add: unwindowed_def new_Publisher_def)
  have u: "unwindowed ?W = int ?n"
    using run_unwindowed[of cs ?w0] a u0 by simp
  then have le: "int ?n \<le> int (length (heap ?W))"
    by (simp add: unwindowed_def)
  then have "?n < 2 ^ 63" using a by simp
  then have s: "sint (seq (pub ?W)) = int ?n"
    using run_counters[of cs ?w0] u0 by (simp add: sint_of_nat_64)
  have 1: "sint (seq (pub ?W)) + int (length (segments (pub ?W)))
             + int (length (presegs (pub ?W))) = int (length (heap ?W))"
    using u s by (simp add: unwindowed_def)
  have 2: "sint cfgN \<le> 0 \<longrightarrow>
        sint (seq (pub ?W)) + int (length (segments (pub ?W))) = int (length (heap ?W))"
  proof
    assume "sint cfgN \<le> 0"
    then have "presegs (pub ?W) = []"
      by (intro run_presegs_empty) (simp_all add: new_Publisher_def)
    with 1 show "sint (seq (pub ?W)) + int (length (segments (pub ?W))) = int (length (heap ?W))"
      by simp
  qed
  from 1 2 show "sint (seq (pub ?W)) + int (length (segments (pub ?W)))
       + int (length (presegs (pub ?W))) = int (length (heap ?W))
     \<and> (sint cfgN \<le> 0 \<longrightarrow>
          sint (seq (pub ?W)) + int (length (segments (pub ?W))) = int (length (heap ?W)))"
    by blast
qed

theorem C8_witness:
  "CloseCall \<notin> set [WritePacketCall env_ok (key_packet 0)]
   \<and> length (heap pre1) < 2 ^ 63
   \<and> sint (seq (pub pre1)) + int (length (segments (pub pre1)))
        + int (length (presegs (pub pre1))) = int (length (heap pre1))
   \<and> length (heap pre1) = 2 \<and> length (presegs (pub pre1)) = 1
   \<and> CloseCall \<notin> set (DiscontinuityCall #
                 map (\<lambda>k. WritePacketCall env_ok (key_packet (of_nat k * (6 * Second)))) [0..<10])
   \<and> length (heap live10) < 2 ^ 63 \<and> sint (0 :: 64 word) \<le> 0
   \<and> sint (seq (pub live10)) + int (length (segments (pub live10))) = int (length (heap live10))"
proof -
  have a: "CloseCall \<notin> set [WritePacketCall env_ok (key_packet 0)]" by simp
  have b: "length (heap pre1) = 2" "length (presegs (pub pre1)) = 1"
    by (simp_all add: pre1_eval)
  have c: "CloseCall \<notin> set (DiscontinuityCall #
                 map (\<lambda>k. WritePacketCall env_ok (key_packet (of_nat k * (6 * Second)))) [0..<10])"
    by (simp add: image_iff)
  have d: "length (heap live10) = 10" by (simp add: live10_eval)
  have 1: "sint (seq (pub pre1)) + int (length (segments (pub pre1)))
        + int (length (presegs (pub pre1))) = int (length (heap pre1))"
    using C8_created_segments_accounted_until_close
            [of "[WritePacketCall env_ok (key_packet 0)]" "5 * Second" "10 * Second" "''/tmp''" True 1]
          a b(1)
    unfolding pre1_def[symmetric] by simp
  have 2: "sint (seq (pub live10)) + int (length (segments (pub live10))) = int (length (heap live10))"
    using C8_created_segments_accounted_until_close
            [of "DiscontinuityCall #
                 map (\<lambda>k. WritePacketCall env_ok (key_packet (of_nat k * (6 * Second)))) [0..<10]"
                "5 * Second" "10 * Second" "''/tmp''" False 0]
          c d
    unfolding pub0_def[symmetric] live10_def[symmetric] by simp
  show ?thesis using a b c d 1 2 by simp
qed

section \<open>Packets that fail\<close>





end
